theory Spec2Isabelle
  imports Complex_Main "HOL-Library.Monad_Syntax"
begin

section \<open>Grid and geometry primitives\<close>

text \<open>
  The classes \<^verbatim>\<open>Position\<close> (integer col, row) and \<^verbatim>\<open>Coordinate\<close> (float col, row) of
  \<^verbatim>\<open>bombman.py\<close> are pairs \<open>(col, row)\<close>: \<open>fst\<close> is \<^verbatim>\<open>get_col()\<close>, \<open>snd\<close> is
  \<^verbatim>\<open>get_row()\<close>. Python floats are idealised as real numbers; Python's unbounded
  integers are \<open>int\<close>. A Python exception is the value \<open>None\<close> of an option result.
\<close>

type_synonym Position = "int \<times> int"
type_synonym Coordinate = "real \<times> real"

text \<open>\<^verbatim>\<open>Position.__ge__\<close>, \<^verbatim>\<open>Position.__le__\<close>, \<^verbatim>\<open>Position.__add__\<close>, \<^verbatim>\<open>Position.__mul__\<close> with a
  number, \<^verbatim>\<open>Position.__sub__\<close> with a number.\<close>

definition Position_ge :: "Position \<Rightarrow> Position \<Rightarrow> bool" where
  "Position_ge p q = (fst p \<ge> fst q \<and> snd p \<ge> snd q)"

definition Position_le :: "Position \<Rightarrow> Position \<Rightarrow> bool" where
  "Position_le p q = (fst p \<le> fst q \<and> snd p \<le> snd q)"

definition Position_add :: "Position \<Rightarrow> Position \<Rightarrow> Position" where
  "Position_add p q = (fst p + fst q, snd p + snd q)"

definition Position_sub_num :: "Position \<Rightarrow> int \<Rightarrow> Position" where
  "Position_sub_num p k = (fst p - k, snd p - k)"

definition Position_mul_num :: "Position \<Rightarrow> int \<Rightarrow> Position" where
  "Position_mul_num p k = (fst p * k, snd p * k)"

text \<open>Python list indexing \<^verbatim>\<open>xs[i]\<close>: a negative index counts from the end, an index out
  of range raises \<^verbatim>\<open>IndexError\<close>. The result is the resolved index.\<close>

definition py_index :: "'a list \<Rightarrow> int \<Rightarrow> nat option" where
  "py_index xs i =
     (if 0 \<le> i \<and> i < int (length xs) then Some (nat i)
      else if - int (length xs) \<le> i \<and> i < 0 then Some (nat (int (length xs) + i))
      else None)"

section \<open>Map model\<close>

datatype tile_kind = TILE_FLOOR | TILE_BLOCK | TILE_WALL

datatype special_object =
    SPECIAL_OBJECT_TRAMPOLINE
  | SPECIAL_OBJECT_TELEPORT_A
  | SPECIAL_OBJECT_TELEPORT_B
  | SPECIAL_OBJECT_ARROW_UP
  | SPECIAL_OBJECT_ARROW_RIGHT
  | SPECIAL_OBJECT_ARROW_DOWN
  | SPECIAL_OBJECT_ARROW_LEFT
  | SPECIAL_OBJECT_LAVA

text \<open>A flame refers to the player who caused it by the player's index in the map's
  player list (the list never changes during a round).\<close>

record Flame =
  flame_player :: nat
  time_to_burnout :: int
  flame_direction :: string

record MapTile =
  kind :: tile_kind
  flames :: "Flame list"
  coordinates :: Position
  to_be_destroyed :: bool
  item :: "int option"
  special_object :: "special_object option"
  destination_teleport :: "Position option"

definition should_not_walk :: "MapTile \<Rightarrow> bool" where
  "should_not_walk t =
     (kind t \<in> set [TILE_WALL, TILE_BLOCK]
      \<or> length (flames t) \<ge> 1
      \<or> special_object t = Some SPECIAL_OBJECT_LAVA)"

record Positionable =
  position :: Coordinate

definition position_to_tile :: "Coordinate \<Rightarrow> Position" where
  "position_to_tile p = (\<lfloor>fst p\<rfloor>, \<lfloor>snd p\<rfloor>)"

definition get_tile_position :: "'a Positionable_scheme \<Rightarrow> Position" where
  "get_tile_position x = position_to_tile (position x)"

text \<open>\<^verbatim>\<open>move_to_tile_center\<close> without an argument, and with a tile given.\<close>

definition move_to_tile_center :: "'a Positionable_scheme \<Rightarrow> 'a Positionable_scheme" where
  "move_to_tile_center x =
     x\<lparr>position := (of_int \<lfloor>fst (position x)\<rfloor> + 1/2, of_int \<lfloor>snd (position x)\<rfloor> + 1/2)\<rparr>"

definition move_to_tile_center_at ::
  "Coordinate \<Rightarrow> 'a Positionable_scheme \<Rightarrow> 'a Positionable_scheme" where
  "move_to_tile_center_at c x = move_to_tile_center (x\<lparr>position := c\<rparr>)"

text \<open>Python's \<^verbatim>\<open>x % 1\<close> on a float is the fractional part \<open>x - floor x\<close>.\<close>

definition is_near_tile_center :: "'a Positionable_scheme \<Rightarrow> bool" where
  "is_near_tile_center x =
     (let position_within_tile = (frac (fst (position x)), frac (snd (position x)));
          limit = 2/10;
          limit2 = 1 - limit
      in (limit < fst position_within_tile \<and> fst position_within_tile < limit2)
         \<and> (limit < snd position_within_tile \<and> snd position_within_tile < limit2))"

datatype bomb_movement =
    BOMB_ROLLING_UP
  | BOMB_ROLLING_RIGHT
  | BOMB_ROLLING_DOWN
  | BOMB_ROLLING_LEFT
  | BOMB_FLYING
  | BOMB_NO_MOVEMENT

record BombFlightInfo =
  total_distance_to_travel :: int
  distance_travelled :: real
  direction :: Position

text \<open>A bomb refers to its owner by the owner's index in the map's player list.\<close>

record Bomb = Positionable +
  time_of_existence :: int
  bomb_flame_length :: int
  bomb_player :: nat
  explodes_in :: int
  detonator_time :: int
  bomb_has_spring :: bool
  movement :: bomb_movement
  has_exploded :: bool
  flight_info :: BombFlightInfo

definition DETONATOR_EXPIRATION_TIME :: int where "DETONATOR_EXPIRATION_TIME = 20000"
definition BOMB_EXPLODES_IN :: int where "BOMB_EXPLODES_IN = 3000"
definition EXPLODES_IN_QUICK :: int where "EXPLODES_IN_QUICK = 800"
definition ROLLING_SPEED :: real where "ROLLING_SPEED = 4"
definition FLYING_SPEED :: real where "FLYING_SPEED = 5"

definition has_detonator :: "Bomb \<Rightarrow> bool" where
  "has_detonator b = (detonator_time b > 0 \<and> time_of_existence b < DETONATOR_EXPIRATION_TIME)"

definition time_until_explosion :: "Bomb \<Rightarrow> int" where
  "time_until_explosion b = explodes_in b + detonator_time b - time_of_existence b"

datatype player_state =
    STATE_IDLE_UP
  | STATE_IDLE_RIGHT
  | STATE_IDLE_DOWN
  | STATE_IDLE_LEFT
  | STATE_WALKING_UP
  | STATE_WALKING_RIGHT
  | STATE_WALKING_DOWN
  | STATE_WALKING_LEFT
  | STATE_IN_AIR
  | STATE_TELEPORTING
  | STATE_DEAD

datatype disease =
    DISEASE_NONE
  | DISEASE_DIARRHEA
  | DISEASE_SLOW
  | DISEASE_REVERSE_CONTROLS
  | DISEASE_SHORT_FLAME
  | DISEASE_SWITCH_PLAYERS
  | DISEASE_FAST_BOMB
  | DISEASE_NO_BOMB
  | DISEASE_EARTHQUAKE

text \<open>The fields of \<^verbatim>\<open>Player\<close> that the simulation functions below read or write.
  \<open>detonator_bombs\<close> holds references into the bomb store of the map.\<close>

record Player = Positionable +
  number :: int
  team_number :: int
  state :: player_state
  state_time :: int
  speed :: real
  bombs_left :: int
  flame_length :: int
  has_spring :: bool
  has_shoe :: bool
  disease_time_left :: int
  player_disease :: disease
  has_multibomb :: bool
  has_boxing_glove :: bool
  has_throwing_glove :: bool
  boxing :: bool
  detonator_bombs_left :: int
  detonator_bombs :: "nat list"
  wait_for_special_release :: bool
  wait_for_bomb_release :: bool
  throwing_time_left :: int
  state_backup :: player_state
  jumping_to :: "Position option"
  teleporting_to :: "Position option"
  wait_for_tile_transition :: bool
  info_board_update_needed :: bool
  putting_bomb :: bool
  putting_multibomb :: bool
  throwing :: bool

datatype sound_event =
    SOUND_EVENT_EXPLOSION
  | SOUND_EVENT_BOMB_PUT
  | SOUND_EVENT_WALK
  | SOUND_EVENT_KICK
  | SOUND_EVENT_SPRING
  | SOUND_EVENT_THROW

datatype map_state =
    STATE_WAITING_TO_PLAY
  | STATE_PLAYING
  | STATE_FINISHING
  | STATE_GAME_OVER

text \<open>
  The state of a \<^verbatim>\<open>GameMap\<close>. Python objects that are shared and mutated are kept in
  explicit stores: \<open>bomb_store\<close> maps a bomb reference to the \<^verbatim>\<open>Bomb\<close> object,
  \<open>bombs\<close> is the list \<^verbatim>\<open>self.bombs\<close> of references, \<open>bomb_alloc\<close> is the next unused
  reference; \<open>players\<close> is \<^verbatim>\<open>self.players\<close>, and a player reference is an index into
  it; \<open>tiles\<close> is the list of rows \<^verbatim>\<open>self.tiles\<close>.
\<close>

record GameMap =
  tiles :: "MapTile list list"
  bombs :: "nat list"
  bomb_store :: "nat \<Rightarrow> Bomb option"
  bomb_alloc :: nat
  players :: "Player list"
  danger_map :: "int list list"
  danger_map_is_up_to_date :: bool
  number_of_blocks :: int
  sound_events :: "sound_event list"
  map_state :: map_state

definition MAP_SIZE :: Position where "MAP_SIZE = (15, 11)"
definition SAFE_DANGER_VALUE :: int where "SAFE_DANGER_VALUE = 5000"

text \<open>\<^verbatim>\<open>self.tiles[row][col]\<close>: the resolved row and column index of a tile.\<close>

definition tile_ref :: "MapTile list list \<Rightarrow> Position \<Rightarrow> (nat \<times> nat) option" where
  "tile_ref ts p =
     (case py_index ts (snd p) of
        None \<Rightarrow> None
      | Some r \<Rightarrow> (case py_index (ts ! r) (fst p) of
                    None \<Rightarrow> None
                  | Some c \<Rightarrow> Some (r, c)))"

definition tile_at :: "GameMap \<Rightarrow> nat \<times> nat \<Rightarrow> MapTile" where
  "tile_at m rc = tiles m ! fst rc ! snd rc"

definition get_tile :: "GameMap \<Rightarrow> Position \<Rightarrow> MapTile option" where
  "get_tile m p = map_option (tile_at m) (tile_ref (tiles m) p)"

text \<open>In-place mutation of the tile object at a resolved index.\<close>

definition update_tile :: "nat \<times> nat \<Rightarrow> (MapTile \<Rightarrow> MapTile) \<Rightarrow> GameMap \<Rightarrow> GameMap" where
  "update_tile rc f m =
     m\<lparr>tiles := (tiles m)[fst rc := (tiles m ! fst rc)[snd rc := f (tiles m ! fst rc ! snd rc)]]\<rparr>"

text \<open>\<^verbatim>\<open>(0, 0) <= tile_coordinates <= (GameMap.MAP_SIZE - 1)\<close>: the first comparison is
  answered by the reflected \<^verbatim>\<open>Position.__ge__\<close>, the second by \<^verbatim>\<open>Position.__le__\<close>.\<close>

definition tile_is_withing_map :: "Position \<Rightarrow> bool" where
  "tile_is_withing_map tile_coordinates =
     (Position_ge tile_coordinates (0, 0)
      \<and> Position_le tile_coordinates (Position_sub_num MAP_SIZE 1))"

text \<open>The bomb objects of \<^verbatim>\<open>self.bombs\<close>, in list order. A reference of the list always
  denotes an object; \<open>the\<close> is only applied to references of the store.\<close>

definition bomb_of :: "GameMap \<Rightarrow> nat \<Rightarrow> Bomb" where
  "bomb_of m r = the (bomb_store m r)"

definition bombs_on_tile :: "GameMap \<Rightarrow> Position \<Rightarrow> nat list" where
  "bombs_on_tile m tile_coordinates =
     filter (\<lambda>r. movement (bomb_of m r) \<noteq> BOMB_FLYING
                 \<and> get_tile_position (bomb_of m r) = tile_coordinates) (bombs m)"

definition bomb_on_tile :: "GameMap \<Rightarrow> Position \<Rightarrow> nat option" where
  "bomb_on_tile m tile_coordinates =
     (case bombs_on_tile m tile_coordinates of [] \<Rightarrow> None | b # _ \<Rightarrow> Some b)"

definition tile_has_bomb :: "GameMap \<Rightarrow> Position \<Rightarrow> bool" where
  "tile_has_bomb m tile_coordinates = (bomb_on_tile m tile_coordinates \<noteq> None)"

definition is_dead :: "Player \<Rightarrow> bool" where
  "is_dead p = (state p = STATE_DEAD)"

definition is_in_air :: "Player \<Rightarrow> bool" where
  "is_in_air p = (state p = STATE_IN_AIR)"

definition get_players_at_tile :: "GameMap \<Rightarrow> Position \<Rightarrow> Player list" where
  "get_players_at_tile m tile_coordinates =
     filter (\<lambda>p. \<not> is_dead p \<and> \<not> is_in_air p \<and> get_tile_position p = tile_coordinates)
       (players m)"

definition tile_has_player :: "GameMap \<Rightarrow> Position \<Rightarrow> bool" where
  "tile_has_player m tile_coordinates = (length (get_players_at_tile m tile_coordinates) > 0)"

definition tile_has_flame :: "GameMap \<Rightarrow> Position \<Rightarrow> bool option" where
  "tile_has_flame m tile_coordinates =
     (if \<not> tile_is_withing_map tile_coordinates then Some False
      else map_option (\<lambda>t. length (flames t) \<ge> 1) (get_tile m tile_coordinates))"

definition tile_has_teleport :: "GameMap \<Rightarrow> Position \<Rightarrow> bool option" where
  "tile_has_teleport m tile_coordinates =
     (if \<not> tile_is_withing_map tile_coordinates then Some False
      else map_option
             (\<lambda>t. special_object t \<in> set [Some SPECIAL_OBJECT_TELEPORT_A, Some SPECIAL_OBJECT_TELEPORT_B])
             (get_tile m tile_coordinates))"

definition tile_is_walkable :: "GameMap \<Rightarrow> Position \<Rightarrow> bool option" where
  "tile_is_walkable m tile_coordinates =
     (if \<not> tile_is_withing_map tile_coordinates then Some False
      else map_option
             (\<lambda>tile. tile_is_withing_map tile_coordinates
                      \<and> (kind tile = TILE_FLOOR \<or> to_be_destroyed tile)
                      \<and> \<not> tile_has_bomb m tile_coordinates)
             (get_tile m tile_coordinates))"

text \<open>A map as the constructor builds it from a tile string of
  \<open>15 * 11\<close> characters: eleven rows of fifteen tiles, the tile of row \<open>r\<close> and column
  \<open>c\<close> carrying the coordinates \<open>(c, r)\<close>.\<close>

definition grid_wf :: "GameMap \<Rightarrow> bool" where
  "grid_wf m =
     (int (length (tiles m)) = snd MAP_SIZE
      \<and> list_all (\<lambda>line. int (length line) = fst MAP_SIZE) (tiles m)
      \<and> list_all (\<lambda>r. list_all (\<lambda>c. coordinates (tiles m ! r ! c) = (int c, int r))
                         [0..<length (tiles m ! r)]) [0..<length (tiles m)])"



text \<open>\<^verbatim>\<open>MapTile.__init__\<close>.\<close>

definition MapTile_init :: "Position \<Rightarrow> MapTile" where
  "MapTile_init c =
     \<lparr>kind = TILE_FLOOR, flames = [], coordinates = c, to_be_destroyed = False,
      item = None, special_object = None, destination_teleport = None\<rparr>"

section \<open>Danger map\<close>

text \<open>A loop whose body may raise: the first exception ends it.\<close>

fun fold_option :: "('a \<Rightarrow> 's \<Rightarrow> 's option) \<Rightarrow> 'a list \<Rightarrow> 's \<Rightarrow> 's option" where
  "fold_option f [] s = Some s"
| "fold_option f (x # xs) s = (case f x s of None \<Rightarrow> None | Some s' \<Rightarrow> fold_option f xs s')"

text \<open>\<^verbatim>\<open>_update_danger_entry\<close>: the reset grid.\<close>

definition update_danger_entry :: "GameMap \<Rightarrow> int list list" where
  "update_danger_entry m =
     map (\<lambda>tile_row. map (\<lambda>tile. if should_not_walk tile then 0 else SAFE_DANGER_VALUE) tile_row)
       (tiles m)"

text \<open>\<^verbatim>\<open>self.danger_map[row][col] = min(self.danger_map[row][col], time_until_explosion)\<close>.\<close>

definition danger_min :: "int list list \<Rightarrow> Position \<Rightarrow> int \<Rightarrow> int list list option" where
  "danger_min dm p t =
     (case py_index dm (snd p) of
        None \<Rightarrow> None
      | Some r \<Rightarrow> (case py_index (dm ! r) (fst p) of
                    None \<Rightarrow> None
                  | Some c \<Rightarrow> Some (dm[r := (dm ! r)[c := min (dm ! r ! c) t]])))"

definition tile_increment :: "Position list" where
  "tile_increment = [(0, -1), (1, 0), (0, 1), (-1, 0)]"

text \<open>The body of \<^verbatim>\<open>for direction in (0, 1, 2, 3)\<close> in \<^verbatim>\<open>update_danger_map\<close>; the loop
  state is \<^verbatim>\<open>position\<close>, \<^verbatim>\<open>flame_stop\<close> and the danger grid.\<close>

definition danger_direction_step ::
  "GameMap \<Rightarrow> int \<Rightarrow> nat \<Rightarrow> Position list \<times> bool list \<times> int list list
   \<Rightarrow> (Position list \<times> bool list \<times> int list list) option" where
  "danger_direction_step m time_until_expl d s =
     (case s of (pos, flame_stop, dm) \<Rightarrow>
        if flame_stop ! d then Some s
        else (case tile_is_walkable m (pos ! d) of
                None \<Rightarrow> None
              | Some w \<Rightarrow>
                  if \<not> w \<or> \<not> tile_is_withing_map (pos ! d)
                  then Some (pos, flame_stop[d := True], dm)
                  else (case danger_min dm (pos ! d) time_until_expl of
                          None \<Rightarrow> None
                        | Some dm' \<Rightarrow>
                            Some (pos[d := Position_add (pos ! d) (tile_increment ! d)],
                                  flame_stop, dm'))))"

text \<open>The body of \<^verbatim>\<open>for bomb in self.bombs\<close> in \<^verbatim>\<open>update_danger_map\<close>.\<close>

definition update_danger_bomb :: "GameMap \<Rightarrow> nat \<Rightarrow> int list list \<Rightarrow> int list list option" where
  "update_danger_bomb m b dm =
     (let bomb = bomb_of m b;
          bomb_tile = get_tile_position bomb;
          time_until_expl = (if has_detonator bomb then 100 else time_until_explosion bomb)
      in case danger_min dm bomb_tile time_until_expl of
           None \<Rightarrow> None
         | Some dm1 \<Rightarrow>
             map_option (\<lambda>s. snd (snd s))
               (fold_option
                  (\<lambda>i. fold_option (danger_direction_step m time_until_expl) [0, 1, 2, 3])
                  [0..<nat (bomb_flame_length bomb)]
                  ([(fst bomb_tile, snd bomb_tile - 1),
                    (fst bomb_tile + 1, snd bomb_tile),
                    (fst bomb_tile, snd bomb_tile + 1),
                    (fst bomb_tile - 1, snd bomb_tile)],
                   [False, False, False, False],
                   dm1)))"

definition update_danger_map :: "GameMap \<Rightarrow> GameMap option" where
  "update_danger_map m =
     map_option (\<lambda>dm. m\<lparr>danger_map := dm\<rparr>)
       (fold_option (update_danger_bomb m) (bombs m) (update_danger_entry m))"

definition get_danger_value :: "GameMap \<Rightarrow> Position \<Rightarrow> (GameMap \<times> int) option" where
  "get_danger_value m tile_coordinates =
     (case (if \<not> danger_map_is_up_to_date m
            then map_option (\<lambda>m'. m'\<lparr>danger_map_is_up_to_date := True\<rparr>) (update_danger_map m)
            else Some m) of
        None \<Rightarrow> None
      | Some m1 \<Rightarrow>
          if \<not> tile_is_withing_map tile_coordinates then Some (m1, 0)
          else (case py_index (danger_map m1) (snd tile_coordinates) of
                  None \<Rightarrow> None
                | Some r \<Rightarrow> (case py_index (danger_map m1 ! r) (fst tile_coordinates) of
                              None \<Rightarrow> None
                            | Some c \<Rightarrow> Some (m1, danger_map m1 ! r ! c))))"


text \<open>The shape of the danger grid of a map of eleven rows of fifteen tiles, the bombs
  whose tile lies inside the map, and the invariant of the loops of \<^verbatim>\<open>update_danger_map\<close>
  for one cell of the grid.\<close>

definition danger_grid_wf :: "int list list \<Rightarrow> bool" where
  "danger_grid_wf dm = (length dm = 11 \<and> (\<forall>line \<in> set dm. length line = 15))"

definition bombs_within_map :: "GameMap \<Rightarrow> bool" where
  "bombs_within_map m =
     list_all (\<lambda>b. tile_is_withing_map (get_tile_position (bomb_of m b))) (bombs m)"

definition danger_inv ::
  "(int \<Rightarrow> bool) \<Rightarrow> nat \<Rightarrow> nat \<Rightarrow> Position list \<times> bool list \<times> int list list \<Rightarrow> bool" where
  "danger_inv P r0 c0 s = (danger_grid_wf (snd (snd s)) \<and> P (snd (snd s) ! r0 ! c0))"

section \<open>Explosions\<close>

definition add_sound_event :: "sound_event \<Rightarrow> GameMap \<Rightarrow> GameMap" where
  "add_sound_event e m = m\<lparr>sound_events := sound_events m @ [e]\<rparr>"

text \<open>\<^verbatim>\<open>Player.bomb_exploded\<close> and \<^verbatim>\<open>Bomb.explodes\<close>, the latter on the bomb reference
  \<open>b\<close> of the map: the owner is notified unless the bomb has exploded already.\<close>

definition bomb_exploded :: "Player \<Rightarrow> Player" where
  "bomb_exploded p = p\<lparr>bombs_left := bombs_left p + 1\<rparr>"

definition explodes :: "nat \<Rightarrow> GameMap \<Rightarrow> GameMap" where
  "explodes b m =
     (if \<not> has_exploded (bomb_of m b)
      then m\<lparr>players := (players m)[bomb_player (bomb_of m b) :=
                          bomb_exploded (players m ! bomb_player (bomb_of m b))],
             bomb_store := (bomb_store m)(b := Some ((bomb_of m b)\<lparr>has_exploded := True\<rparr>))\<rparr>
      else m)"

text \<open>The tables of \<^verbatim>\<open>bomb_explodes\<close>, indexed by the direction (up, right, down, left).\<close>

definition map_limit :: "int list" where
  "map_limit = [0, fst MAP_SIZE - 1, snd MAP_SIZE - 1, 0]"

definition increment :: "int list" where
  "increment = [-1, 1, 1, -1]"

definition goes_horizontally :: "bool list" where
  "goes_horizontally = [False, True, False, True]"

definition direction_name :: "string list" where
  "direction_name = [''up'', ''right'', ''down'', ''left'']"

text \<open>\<^verbatim>\<open>Flame()\<close> with the player set; \<^verbatim>\<open>copy.copy\<close> of it with another direction tag.\<close>

definition Flame_init :: "nat \<Rightarrow> string \<Rightarrow> Flame" where
  "Flame_init owner tag = \<lparr>flame_player = owner, time_to_burnout = 1000, flame_direction = tag\<rparr>"

text \<open>
  The body of \<^verbatim>\<open>for direction in (0, 1, 2, 3)\<close> in \<^verbatim>\<open>bomb_explodes\<close>. The loop state is
  \<^verbatim>\<open>axis_position\<close>, \<^verbatim>\<open>flame_stop\<close>, \<^verbatim>\<open>previous_flame\<close> and the map. A reference to a flame
  object is the resolved index of its tile and its index in the flame list of the tile
  (flames are only appended during an explosion).
\<close>

type_synonym flame_loop_state =
  "int list \<times> bool list \<times> ((nat \<times> nat) \<times> nat) option list \<times> GameMap"

definition flame_direction_step ::
  "Position \<Rightarrow> nat \<Rightarrow> nat \<Rightarrow> flame_loop_state \<Rightarrow> flame_loop_state option" where
  "flame_direction_step bomb_position owner d s =
     (case s of (axis_position, flame_stop, previous_flame, m) \<Rightarrow>
        (case
           (if flame_stop ! d then
              (case previous_flame ! d of
                 None \<Rightarrow> Some (flame_stop, previous_flame, m)
               | Some (rc, k) \<Rightarrow>
                   Some (flame_stop, previous_flame[d := None],
                         update_tile rc
                           (\<lambda>t. t\<lparr>flames := (flames t)[k := (flames t ! k)
                                      \<lparr>flame_direction := direction_name ! d\<rparr>]\<rparr>) m))
            else if (increment ! d = -1 \<and> axis_position ! d \<ge> map_limit ! d)
                    \<or> (increment ! d = 1 \<and> axis_position ! d \<le> map_limit ! d) then
              (case tile_ref (tiles m)
                      (if goes_horizontally ! d then (axis_position ! d, snd bomb_position)
                       else (fst bomb_position, axis_position ! d)) of
                 None \<Rightarrow> None
               | Some rc \<Rightarrow>
                   if kind (tile_at m rc) = TILE_WALL
                   then Some (flame_stop[d := True], previous_flame, m)
                   else Some ((if kind (tile_at m rc) = TILE_BLOCK then flame_stop[d := True]
                               else flame_stop),
                              previous_flame[d := Some (rc, length (flames (tile_at m rc)))],
                              update_tile rc
                                (\<lambda>t. t\<lparr>flames := flames t @
                                    [Flame_init owner
                                       (if goes_horizontally ! d then ''horizontal''
                                        else ''vertical'')]\<rparr>) m))
            else Some (flame_stop[d := True], previous_flame, m)) of
           None \<Rightarrow> None
         | Some (flame_stop', previous_flame', m') \<Rightarrow>
             Some (axis_position[d := axis_position ! d + increment ! d],
                   flame_stop', previous_flame', m')))"

text \<open>The body of \<^verbatim>\<open>for i in range(bomb.flame_length + 1)\<close>.\<close>

definition flame_iteration ::
  "Position \<Rightarrow> nat \<Rightarrow> int \<Rightarrow> nat \<Rightarrow> flame_loop_state \<Rightarrow> flame_loop_state option" where
  "flame_iteration bomb_position owner len i s =
     fold_option (flame_direction_step bomb_position owner) [0, 1, 2, 3]
       (case s of (axis_position, flame_stop, previous_flame, m) \<Rightarrow>
          (axis_position,
           (if int i \<ge> len then [True, True, True, True] else flame_stop),
           previous_flame, m))"

definition bomb_explodes :: "nat \<Rightarrow> GameMap \<Rightarrow> GameMap option" where
  "bomb_explodes b m =
     (let bomb = bomb_of m b;
          m0 = add_sound_event SOUND_EVENT_EXPLOSION m;
          bomb_position = get_tile_position bomb
      in case tile_ref (tiles m0) bomb_position of
           None \<Rightarrow> None
         | Some rc \<Rightarrow>
             (case fold_option
                     (flame_iteration bomb_position (bomb_player bomb) (bomb_flame_length bomb))
                     [0..<nat (bomb_flame_length bomb + 1)]
                     ([snd bomb_position - 1, fst bomb_position + 1,
                       snd bomb_position + 1, fst bomb_position - 1],
                      [False, False, False, False],
                      [None, None, None, None],
                      update_tile rc
                        (\<lambda>t. t\<lparr>flames := flames t @ [Flame_init (bomb_player bomb) ''all'']\<rparr>)
                        m0) of
                None \<Rightarrow> None
              | Some (axis_position, flame_stop, previous_flame, m1) \<Rightarrow>
                  Some ((explodes b m1)\<lparr>bombs := remove1 b (bombs (explodes b m1))\<rparr>)))"

text \<open>
  The explosion in the words of the specification. \<open>flame_reaches m origin d k\<close>: walking
  from \<open>origin\<close> in direction \<open>d\<close>, the tile at distance \<open>k\<close> is inside the map and is not a
  Wall, and every nearer tile of the walk is inside the map and of kind Floor.
  \<open>flame_footprint\<close>: the origin, and in each direction the tiles the flame reaches within
  the flame length.
\<close>

definition kind_at :: "GameMap \<Rightarrow> Position \<Rightarrow> tile_kind" where
  "kind_at m q = kind (tiles m ! nat (snd q) ! nat (fst q))"

definition tile_towards :: "Position \<Rightarrow> nat \<Rightarrow> nat \<Rightarrow> Position" where
  "tile_towards origin d k = Position_add origin (Position_mul_num (tile_increment ! d) (int k))"

definition flame_reaches :: "GameMap \<Rightarrow> Position \<Rightarrow> nat \<Rightarrow> nat \<Rightarrow> bool" where
  "flame_reaches m origin d k =
     (tile_is_withing_map (tile_towards origin d k)
      \<and> kind_at m (tile_towards origin d k) \<noteq> TILE_WALL
      \<and> (\<forall>j \<in> {1..<k}. tile_is_withing_map (tile_towards origin d j)
                        \<and> kind_at m (tile_towards origin d j) = TILE_FLOOR))"

definition flame_footprint :: "GameMap \<Rightarrow> Position \<Rightarrow> int \<Rightarrow> Position \<Rightarrow> bool" where
  "flame_footprint m origin len q =
     (q = origin
      \<or> (\<exists>d \<in> {0..<4}. \<exists>k \<in> {1..nat len}.
            q = tile_towards origin d k \<and> flame_reaches m origin d k))"

text \<open>What identifies a flame for the simulation: its owner and its burnout timer (the
  direction tag is a render hint).\<close>

definition flame_key :: "Flame \<Rightarrow> nat \<times> int" where
  "flame_key f = (flame_player f, time_to_burnout f)"

text \<open>The state of the explosion loop after direction \<open>d\<close> has taken \<open>ks d\<close> steps, in terms
  of the map \<open>m0\<close> before the explosion.\<close>

definition axis_at :: "Position \<Rightarrow> nat \<Rightarrow> nat \<Rightarrow> int" where
  "axis_at origin d k =
     [snd origin - 1, fst origin + 1, snd origin + 1, fst origin - 1] ! d + int k * increment ! d"

definition ray_open :: "GameMap \<Rightarrow> Position \<Rightarrow> nat \<Rightarrow> nat \<Rightarrow> bool" where
  "ray_open m origin d n =
     (\<forall>j < n. tile_is_withing_map (tile_towards origin d (Suc j))
              \<and> kind_at m (tile_towards origin d (Suc j)) = TILE_FLOOR)"

definition strip_flames :: "MapTile list list \<Rightarrow> MapTile list list" where
  "strip_flames ts = map (map (\<lambda>t. t\<lparr>flames := []\<rparr>)) ts"

definition flame_hit :: "GameMap \<Rightarrow> Position \<Rightarrow> (nat \<Rightarrow> nat) \<Rightarrow> Position \<Rightarrow> bool" where
  "flame_hit m0 origin ks q =
     (q = origin
      \<or> (\<exists>d < 4. \<exists>k. 1 \<le> k \<and> k \<le> ks d \<and> q = tile_towards origin d k
                      \<and> flame_reaches m0 origin d k))"

definition flame_loop_inv ::
  "GameMap \<Rightarrow> Position \<Rightarrow> nat \<Rightarrow> (nat \<Rightarrow> nat) \<Rightarrow> flame_loop_state \<Rightarrow> bool" where
  "flame_loop_inv m0 origin owner ks s =
     (case s of (axis_position, flame_stop, previous_flame, m) \<Rightarrow>
        length axis_position = 4 \<and> length flame_stop = 4 \<and> length previous_flame = 4
        \<and> m\<lparr>tiles := []\<rparr> = m0\<lparr>tiles := [], sound_events := sound_events m0 @ [SOUND_EVENT_EXPLOSION]\<rparr>
        \<and> strip_flames (tiles m) = strip_flames (tiles m0)
        \<and> (\<forall>d < 4. axis_position ! d = axis_at origin d (ks d)
                    \<and> (flame_stop ! d \<longleftrightarrow> \<not> ray_open m0 origin d (ks d)))
        \<and> (\<forall>r < 11. \<forall>c < 15.
              map flame_key (flames (tiles m ! r ! c)) =
                map flame_key (flames (tiles m0 ! r ! c))
                @ (if flame_hit m0 origin ks (int c, int r) then [(owner, 1000)] else [])))"

text \<open>The last iteration of the explosion loop, in which every direction has stopped:
  the flames of the map \<open>m1\<close> only change their direction tags.\<close>

definition flame_final_inv :: "GameMap \<Rightarrow> flame_loop_state \<Rightarrow> bool" where
  "flame_final_inv m1 s =
     (case s of (axis_position, flame_stop, previous_flame, m) \<Rightarrow>
        length flame_stop = 4 \<and> (\<forall>d < 4. flame_stop ! d)
        \<and> m\<lparr>tiles := []\<rparr> = m1\<lparr>tiles := []\<rparr>
        \<and> strip_flames (tiles m) = strip_flames (tiles m1)
        \<and> (\<forall>r < 11. \<forall>c < 15.
              map flame_key (flames (tiles m ! r ! c)) =
                map flame_key (flames (tiles m1 ! r ! c))))"

text \<open>What a call of \<^verbatim>\<open>bomb_explodes\<close> needs of a bomb reference: it denotes a bomb
  object whose tile lies inside the map and whose owner is a player of the map.
  \<open>exploded_by m bs m'\<close>: the state \<open>m'\<close> after the explosions requested for the
  references \<open>bs\<close>, one after the other, in the state \<open>m\<close>.\<close>

definition explosion_ready :: "GameMap \<Rightarrow> nat \<Rightarrow> bool" where
  "explosion_ready m b =
     (bomb_store m b \<noteq> None
      \<and> tile_is_withing_map (get_tile_position (bomb_of m b))
      \<and> bomb_player (bomb_of m b) < length (players m))"



section \<open>Bomb update\<close>

text \<open>In-place mutation of the bomb object with reference \<open>b\<close>.\<close>

definition set_bomb :: "nat \<Rightarrow> (Bomb \<Rightarrow> Bomb) \<Rightarrow> GameMap \<Rightarrow> GameMap" where
  "set_bomb b f m = m\<lparr>bomb_store := (bomb_store m)(b := Some (f (bomb_of m b)))\<rparr>"

text \<open>\<^verbatim>\<open>Bomb.send_flying\<close>; the destination is a \<^verbatim>\<open>Position\<close> in every caller.\<close>

definition send_flying :: "Position \<Rightarrow> Bomb \<Rightarrow> Bomb" where
  "send_flying destination_tile_coords bomb =
     (let current_tile = get_tile_position bomb;
          axis_is_row = (fst current_tile = fst destination_tile_coords);
          cur = (if axis_is_row then snd current_tile else fst current_tile);
          dest = (if axis_is_row then snd destination_tile_coords
                  else fst destination_tile_coords);
          step = (if cur > dest then - 1 else 1)
      in move_to_tile_center_at
           (of_int (fst destination_tile_coords mod fst MAP_SIZE),
            of_int (snd destination_tile_coords mod snd MAP_SIZE))
           (bomb\<lparr>movement := BOMB_FLYING,
                 flight_info :=
                   \<lparr>total_distance_to_travel = \<bar>cur - dest\<bar>,
                    distance_travelled = 0,
                    direction = (if axis_is_row then (0, step) else (step, 0))\<rparr>\<rparr>))"

text \<open>\<^verbatim>\<open>get_tile_at(tile).item = None\<close>: outside the map \<^verbatim>\<open>get_tile_at\<close> returns \<^verbatim>\<open>None\<close> and
  the assignment raises.\<close>

definition clear_item_at :: "Position \<Rightarrow> GameMap \<Rightarrow> GameMap option" where
  "clear_item_at p m =
     (if \<not> tile_is_withing_map p then None
      else map_option (\<lambda>rc. update_tile rc (\<lambda>t. t\<lparr>item := None\<rparr>) m) (tile_ref (tiles m) p))"

text \<open>\<^verbatim>\<open>not (tile_is_walkable(t) or tile_has_player(t) or tile_has_teleport(t))\<close> as the
  flying branch of \<^verbatim>\<open>__update_bombs\<close> evaluates it, and
  \<^verbatim>\<open>not tile_is_walkable(t) or tile_has_player(t) or tile_has_teleport(t)\<close> as the rolling
  branch does.\<close>

definition flying_bomb_keeps_flying :: "GameMap \<Rightarrow> Position \<Rightarrow> bool option" where
  "flying_bomb_keeps_flying m t =
     (case tile_is_walkable m t of
        None \<Rightarrow> None
      | Some True \<Rightarrow> Some False
      | Some False \<Rightarrow>
          if tile_has_player m t then Some False
          else map_option Not (tile_has_teleport m t))"

definition rolling_bomb_blocked :: "GameMap \<Rightarrow> Position \<Rightarrow> bool option" where
  "rolling_bomb_blocked m t =
     (case tile_is_walkable m t of
        None \<Rightarrow> None
      | Some False \<Rightarrow> Some True
      | Some True \<Rightarrow>
          if tile_has_player m t then Some True
          else tile_has_teleport m t)"

text \<open>The branch \<^verbatim>\<open>if bomb.movement == Bomb.BOMB_FLYING\<close> of \<^verbatim>\<open>__update_bombs\<close>.\<close>

definition update_flying_bomb :: "int \<Rightarrow> nat \<Rightarrow> GameMap \<Rightarrow> GameMap option" where
  "update_flying_bomb dt b m =
     (let distance_to_travel = of_int dt / 1000 * FLYING_SPEED;
          m1 = set_bomb b
                 (\<lambda>bomb. bomb\<lparr>flight_info := (flight_info bomb)
                    \<lparr>distance_travelled :=
                       distance_travelled (flight_info bomb) + distance_to_travel\<rparr>\<rparr>) m;
          bomb = bomb_of m1 b
      in if distance_travelled (flight_info bomb)
              \<ge> of_int (total_distance_to_travel (flight_info bomb))
         then
           (let bomb_tile = get_tile_position bomb;
                m2 = add_sound_event SOUND_EVENT_BOMB_PUT m1
            in case flying_bomb_keeps_flying m2 bomb_tile of
                 None \<Rightarrow> None
               | Some True \<Rightarrow>
                   Some (set_bomb b
                           (send_flying (Position_add bomb_tile (direction (flight_info bomb))))
                           m2)
               | Some False \<Rightarrow>
                   clear_item_at bomb_tile
                     (set_bomb b (\<lambda>bomb. bomb\<lparr>movement := BOMB_NO_MOVEMENT\<rparr>) m2))
         else Some m1)"

text \<open>The branch of a rolling bomb. \<open>bomb_position\<close> and \<open>bomb_tile\<close> are the values read at
  the start of the loop body.\<close>

definition redirect_bomb :: "special_object option \<Rightarrow> Coordinate \<Rightarrow> Position \<Rightarrow> Bomb \<Rightarrow> Bomb option" where
  "redirect_bomb object_at_tile bomb_position bomb_tile bomb =
     (if object_at_tile = Some SPECIAL_OBJECT_ARROW_UP \<and> movement bomb \<noteq> BOMB_ROLLING_UP
      then Some (bomb\<lparr>movement := BOMB_ROLLING_UP,
                      position := (of_int (fst bomb_tile) + 1/2, of_int (snd bomb_tile))\<rparr>)
      else if object_at_tile = Some SPECIAL_OBJECT_ARROW_RIGHT \<and> movement bomb \<noteq> BOMB_ROLLING_RIGHT
      then Some (bomb\<lparr>movement := BOMB_ROLLING_RIGHT,
                      position := (fst bomb_position, of_int (snd bomb_tile) + 1/2)\<rparr>)
      else if object_at_tile = Some SPECIAL_OBJECT_ARROW_DOWN \<and> movement bomb \<noteq> BOMB_ROLLING_DOWN
      then Some (bomb\<lparr>movement := BOMB_ROLLING_DOWN,
                      position := (of_int (fst bomb_tile) + 1/2, snd bomb_position)\<rparr>)
      else if object_at_tile = Some SPECIAL_OBJECT_ARROW_LEFT \<and> movement bomb \<noteq> BOMB_ROLLING_LEFT
      then Some (bomb\<lparr>movement := BOMB_ROLLING_LEFT,
                      position := (fst bomb_position, of_int (snd bomb_tile) + 1/2)\<rparr>)
      else None)"

text \<open>The position, the opposite direction, and the forward tile to check (if any) of a
  rolling step. Rolling up writes the row into the column and the moved column into the
  row, as the source does.\<close>

definition roll_step ::
  "bomb_movement \<Rightarrow> Coordinate \<Rightarrow> Position \<Rightarrow> real
   \<Rightarrow> Coordinate \<times> bomb_movement \<times> Position option" where
  "roll_step mv bomb_position bomb_tile distance_to_travel =
     (let within_col = frac (fst bomb_position);
          within_row = frac (snd bomb_position);
          lo = 5/10; hi = 9/10; lo2 = 1 - hi; hi2 = 1 - lo
      in if mv = BOMB_ROLLING_UP then
           ((snd bomb_position, fst bomb_position - distance_to_travel), BOMB_ROLLING_DOWN,
            if lo2 < within_row \<and> within_row < hi2
            then Some (fst bomb_tile, snd bomb_tile - 1) else None)
         else if mv = BOMB_ROLLING_RIGHT then
           ((fst bomb_position + distance_to_travel, snd bomb_position), BOMB_ROLLING_LEFT,
            if lo < within_col \<and> within_col < hi
            then Some (fst bomb_tile + 1, snd bomb_tile) else None)
         else if mv = BOMB_ROLLING_DOWN then
           ((fst bomb_position, snd bomb_position + distance_to_travel), BOMB_ROLLING_UP,
            if lo < within_row \<and> within_row < hi
            then Some (fst bomb_tile, snd bomb_tile + 1) else None)
         else if mv = BOMB_ROLLING_LEFT then
           ((fst bomb_position - distance_to_travel, snd bomb_position), BOMB_ROLLING_RIGHT,
            if lo2 < within_col \<and> within_col < hi2
            then Some (fst bomb_tile - 1, snd bomb_tile) else None)
         else (bomb_position, BOMB_NO_MOVEMENT, None))"

definition update_rolling_bomb ::
  "int \<Rightarrow> nat \<Rightarrow> Coordinate \<Rightarrow> Position \<Rightarrow> GameMap \<Rightarrow> GameMap option" where
  "update_rolling_bomb dt b bomb_position0 bomb_tile m =
     (case (if is_near_tile_center (bomb_of m b)
            then (case get_tile m bomb_tile of
                    None \<Rightarrow> None
                  | Some t \<Rightarrow>
                      (case redirect_bomb (special_object t) bomb_position0 bomb_tile
                              (bomb_of m b) of
                         None \<Rightarrow> Some (m, bomb_position0)
                       | Some bomb' \<Rightarrow> Some (set_bomb b (\<lambda>_. bomb') m, position bomb')))
            else Some (m, bomb_position0)) of
        None \<Rightarrow> None
      | Some (m1, bomb_position) \<Rightarrow>
          (case tile_ref (tiles m1) bomb_tile of
             None \<Rightarrow> None
           | Some rc \<Rightarrow>
               (let m2 = (if item (tile_at m1 rc) \<noteq> None
                          then update_tile rc (\<lambda>t. t\<lparr>item := None\<rparr>) m1 else m1);
                    distance_to_travel = of_int dt / 1000 * ROLLING_SPEED;
                    step = roll_step (movement (bomb_of m2 b)) bomb_position bomb_tile
                             distance_to_travel;
                    m3 = (if movement (bomb_of m2 b) \<in> set [BOMB_ROLLING_UP, BOMB_ROLLING_RIGHT,
                                                            BOMB_ROLLING_DOWN, BOMB_ROLLING_LEFT]
                          then set_bomb b (\<lambda>bomb. bomb\<lparr>position := fst step\<rparr>) m2 else m2)
                in case snd (snd step) of
                     None \<Rightarrow> Some m3
                   | Some forward_tile \<Rightarrow>
                       (case rolling_bomb_blocked m3 forward_tile of
                          None \<Rightarrow> None
                        | Some False \<Rightarrow> Some m3
                        | Some True \<Rightarrow>
                            if bomb_has_spring (bomb_of m3 b)
                            then Some (add_sound_event SOUND_EVENT_SPRING
                                   (set_bomb b (\<lambda>bomb. (move_to_tile_center bomb)
                                      \<lparr>movement := fst (snd step)\<rparr>) m3))
                            else Some (add_sound_event SOUND_EVENT_KICK
                                   (set_bomb b (\<lambda>bomb. (move_to_tile_center bomb)
                                      \<lparr>movement := BOMB_NO_MOVEMENT\<rparr>) m3))))))"

text \<open>
  The body of the \<^verbatim>\<open>while\<close> loop of \<^verbatim>\<open>__update_bombs\<close> for the bomb reference \<open>b\<close> at the
  current index. The result is the new state and whether the index advances (the
  branches that end in \<^verbatim>\<open>continue\<close> leave it as it is).
\<close>

definition update_bomb :: "int \<Rightarrow> nat \<Rightarrow> GameMap \<Rightarrow> (GameMap \<times> bool) option" where
  "update_bomb dt b m =
     (if has_exploded (bomb_of m b) then Some (m\<lparr>bombs := remove1 b (bombs m)\<rparr>, False)
      else
        (let m1 = set_bomb b (\<lambda>bomb. bomb\<lparr>time_of_existence := time_of_existence bomb + dt\<rparr>) m;
             bomb = bomb_of m1 b;
             bomb_position = position bomb;
             bomb_tile = get_tile_position bomb
         in if movement bomb \<noteq> BOMB_FLYING
               \<and> time_of_existence bomb > explodes_in bomb + detonator_time bomb
            then map_option (\<lambda>m'. (m', False)) (bomb_explodes b m1)
            else
              (case (if movement bomb \<noteq> BOMB_FLYING
                     then map_option
                            (\<lambda>t. special_object t = Some SPECIAL_OBJECT_LAVA
                                 \<and> is_near_tile_center bomb)
                            (get_tile m1 bomb_tile)
                     else Some False) of
                 None \<Rightarrow> None
               | Some True \<Rightarrow> map_option (\<lambda>m'. (m', False)) (bomb_explodes b m1)
               | Some False \<Rightarrow>
                   map_option (\<lambda>m'. (m', True))
                     (if movement bomb \<noteq> BOMB_NO_MOVEMENT
                      then (if movement bomb = BOMB_FLYING then update_flying_bomb dt b m1
                            else update_rolling_bomb dt b bomb_position bomb_tile m1)
                      else Some m1))))"

partial_function (option) update_bombs_loop :: "int \<Rightarrow> nat \<Rightarrow> GameMap \<Rightarrow> GameMap option" where
  "update_bombs_loop dt i m =
     (if i < length (bombs m)
      then (case update_bomb dt (bombs m ! i) m of
              None \<Rightarrow> None
            | Some (m', advance) \<Rightarrow> update_bombs_loop dt (if advance then i + 1 else i) m')
      else Some m)"

declare update_bombs_loop.simps [code]

definition update_bombs :: "int \<Rightarrow> GameMap \<Rightarrow> GameMap option" where
  "update_bombs dt m = update_bombs_loop dt 0 m"

text \<open>The special objects of the grid; no bomb update changes them.\<close>

definition special_objects :: "GameMap \<Rightarrow> special_object option list list" where
  "special_objects m = map (map special_object) (tiles m)"

text \<open>What the body of the loop leaves as it is when it handles the bomb \<open>b\<close> without
  removing it: the shape of the grid and its special objects, the bomb list, the players,
  and every other bomb object. \<open>bomb_step\<close> is the same for the whole body, where the bomb
  may be removed (the index then stays) and its owner credited.\<close>

definition bomb_frame :: "nat \<Rightarrow> GameMap \<Rightarrow> GameMap \<Rightarrow> bool" where
  "bomb_frame b m m' =
     (grid_wf m' \<and> bombs m' = bombs m \<and> players m' = players m
      \<and> bomb_alloc m' = bomb_alloc m \<and> map_state m' = map_state m
      \<and> special_objects m' = special_objects m
      \<and> bomb_store m' b \<noteq> None
      \<and> (\<forall>b'. b' \<noteq> b \<longrightarrow> bomb_store m' b' = bomb_store m b'))"

definition bomb_step :: "nat \<Rightarrow> GameMap \<Rightarrow> GameMap \<Rightarrow> bool \<Rightarrow> bool" where
  "bomb_step b m m' advance =
     (grid_wf m'
      \<and> bombs m' = (if advance then bombs m else remove1 b (bombs m))
      \<and> length (players m') = length (players m)
      \<and> special_objects m' = special_objects m
      \<and> (\<forall>b'. b' \<noteq> b \<longrightarrow> bomb_store m' b' = bomb_store m b'))"

text \<open>A stationary, unexploded bomb with the default fuse and no detonator; whether the
  tile at a position is lava; and what the bomb update of \<open>dt\<close> milliseconds makes of such
  a bomb \<open>b\<close> whose object was \<open>B\<close> before.\<close>

definition plain_bomb :: "Bomb \<Rightarrow> bool" where
  "plain_bomb B =
     (movement B = BOMB_NO_MOVEMENT \<and> \<not> has_exploded B
      \<and> explodes_in B = BOMB_EXPLODES_IN \<and> detonator_time B = 0)"

definition lava_at :: "GameMap \<Rightarrow> Position \<Rightarrow> bool" where
  "lava_at m p =
     (case get_tile m p of
        None \<Rightarrow> False
      | Some t \<Rightarrow> special_object t = Some SPECIAL_OBJECT_LAVA)"

definition fuse_outcome :: "nat \<Rightarrow> Bomb \<Rightarrow> int \<Rightarrow> GameMap \<Rightarrow> bool" where
  "fuse_outcome b B dt m =
     (if time_of_existence B + dt > 3000
      then has_exploded (bomb_of m b) \<and> b \<notin> set (bombs m)
      else bomb_of m b = B\<lparr>time_of_existence := time_of_existence B + dt\<rparr>
           \<and> b \<in> set (bombs m))"

definition fuse_inv :: "nat \<Rightarrow> Bomb \<Rightarrow> int \<Rightarrow> nat \<Rightarrow> GameMap \<Rightarrow> bool" where
  "fuse_inv b B dt i m =
     (grid_wf m \<and> distinct (bombs m) \<and> i \<le> length (bombs m)
      \<and> (\<forall>x \<in> set (drop i (bombs m)). explosion_ready m x)
      \<and> \<not> lava_at m (get_tile_position B)
      \<and> (if b \<in> set (drop i (bombs m)) then bomb_of m b = B else fuse_outcome b B dt m))"

text \<open>What is observed of a bomb object: whether it has exploded, its age, its movement.\<close>

definition bomb_state :: "nat \<Rightarrow> GameMap \<Rightarrow> bool \<times> int \<times> bomb_movement" where
  "bomb_state b m =
     (has_exploded (bomb_of m b), time_of_existence (bomb_of m b), movement (bomb_of m b))"

section \<open>Construction of the map\<close>

text \<open>\<^verbatim>\<open>str.split(sep)\<close> for a one-character separator.\<close>

fun split_on :: "char \<Rightarrow> string \<Rightarrow> string list" where
  "split_on sep [] = [[]]"
| "split_on sep (c # cs) =
     (if c = sep then [] # split_on sep cs
      else (case split_on sep cs of
              [] \<Rightarrow> [[c]]
            | w # ws \<Rightarrow> (c # w) # ws))"

text \<open>\<^verbatim>\<open>GameMap.letter_to_item\<close>.\<close>

definition letter_to_item :: "char \<Rightarrow> int" where
  "letter_to_item letter =
     (case map_of [(CHR ''f'', 1), (CHR ''F'', 2), (CHR ''b'', 0), (CHR ''k'', 7),
                   (CHR ''s'', 3), (CHR ''p'', 6), (CHR ''m'', 8), (CHR ''d'', 4),
                   (CHR ''r'', 5), (CHR ''x'', 9), (CHR ''e'', 10), (CHR ''t'', 11)] letter of
        Some i \<Rightarrow> i
      | None \<Rightarrow> - 1)"

text \<open>\<^verbatim>\<open>random.choice(seq)\<close>: the element at an index below the length that the generator
  draws, here the parameter \<open>k\<close> reduced modulo the length; on an empty sequence it raises
  \<^verbatim>\<open>IndexError\<close>.\<close>

definition random_choice :: "nat \<Rightarrow> 'a list \<Rightarrow> 'a option" where
  "random_choice k xs = (if xs = [] then None else Some (xs ! (k mod length xs)))"

definition set_tile :: "nat \<times> nat \<Rightarrow> (MapTile \<Rightarrow> MapTile) \<Rightarrow> MapTile list list \<Rightarrow> MapTile list list" where
  "set_tile rc f ts = ts[fst rc := (ts ! fst rc)[snd rc := f (ts ! fst rc ! snd rc)]]"

text \<open>
  The body of the loop over the tile characters of \<^verbatim>\<open>GameMap.__init__\<close>, for the character
  \<open>ch\<close> at index \<open>i\<close>. The state is the grid built so far, the list \<^verbatim>\<open>block_tiles\<close> (tile
  objects, here their indices in the grid), the first teleport tile of either letter, and
  \<^verbatim>\<open>number_of_blocks\<close>. The loop's \<^verbatim>\<open>line\<close> and \<^verbatim>\<open>column\<close> are \<open>i div 15\<close> and \<open>i mod 15\<close>.
\<close>

type_synonym init_state =
  "MapTile list list \<times> (nat \<times> nat) list \<times> (nat \<times> nat) option \<times> (nat \<times> nat) option \<times> int"

definition pair_teleport ::
  "(nat \<times> nat) option \<Rightarrow> (nat \<times> nat) \<Rightarrow> MapTile \<Rightarrow> MapTile list list
   \<Rightarrow> (nat \<times> nat) option \<times> MapTile \<times> MapTile list list" where
  "pair_teleport first_tile ref tile ts =
     (case first_tile of
        None \<Rightarrow> (Some ref, tile, ts)
      | Some rc \<Rightarrow>
          (first_tile,
           tile\<lparr>destination_teleport := Some (coordinates (ts ! fst rc ! snd rc))\<rparr>,
           set_tile rc (\<lambda>t. t\<lparr>destination_teleport := Some (coordinates tile)\<rparr>) ts))"

definition init_tile :: "nat \<times> char \<Rightarrow> init_state \<Rightarrow> init_state" where
  "init_tile ic s =
     (case s of (ts0, block_tiles, teleport_a_tile, teleport_b_tile, n_blocks) \<Rightarrow>
      let i = fst ic; tile_character = snd ic;
          column = i mod nat (fst MAP_SIZE);
          ts = (if column = 0 then ts0 @ [[]] else ts0);
          ref = (length ts - 1, length (last ts));
          tile = MapTile_init (int column, int (length ts) - 1)
      in case
           (if tile_character = CHR ''x''
            then (tile\<lparr>kind := TILE_BLOCK\<rparr>, ts, block_tiles @ [ref],
                  teleport_a_tile, teleport_b_tile)
            else if tile_character = CHR ''#''
            then (tile\<lparr>kind := TILE_WALL\<rparr>, ts, block_tiles, teleport_a_tile, teleport_b_tile)
            else if tile_character \<in> set ''urdlURDL''
            then (tile\<lparr>kind := (if tile_character \<in> set ''urdl'' then TILE_FLOOR
                                 else TILE_BLOCK),
                        special_object :=
                          Some (if tile_character \<in> set ''uU'' then SPECIAL_OBJECT_ARROW_UP
                                else if tile_character \<in> set ''rR''
                                then SPECIAL_OBJECT_ARROW_RIGHT
                                else if tile_character \<in> set ''dD''
                                then SPECIAL_OBJECT_ARROW_DOWN
                                else SPECIAL_OBJECT_ARROW_LEFT)\<rparr>,
                  ts, block_tiles, teleport_a_tile, teleport_b_tile)
            else if tile_character = CHR ''A''
            then (case pair_teleport teleport_a_tile ref
                         (tile\<lparr>special_object := Some SPECIAL_OBJECT_TELEPORT_A\<rparr>) ts of
                    (first_tile, tile', ts') \<Rightarrow>
                      (tile', ts', block_tiles, first_tile, teleport_b_tile))
            else if tile_character = CHR ''B''
            then (case pair_teleport teleport_b_tile ref
                         (tile\<lparr>special_object := Some SPECIAL_OBJECT_TELEPORT_A\<rparr>) ts of
                    (first_tile, tile', ts') \<Rightarrow>
                      (tile', ts', block_tiles, teleport_a_tile, first_tile))
            else if tile_character = CHR ''T''
            then (tile\<lparr>special_object := Some SPECIAL_OBJECT_TRAMPOLINE\<rparr>, ts, block_tiles,
                  teleport_a_tile, teleport_b_tile)
            else if tile_character = CHR ''V''
            then (tile\<lparr>special_object := Some SPECIAL_OBJECT_LAVA\<rparr>, ts, block_tiles,
                  teleport_a_tile, teleport_b_tile)
            else (tile, ts, block_tiles, teleport_a_tile, teleport_b_tile)) of
           (tile', ts', block_tiles', teleport_a_tile', teleport_b_tile') \<Rightarrow>
             (butlast ts' @ [last ts' @ [tile']], block_tiles',
              teleport_a_tile', teleport_b_tile',
              (if kind tile' = TILE_BLOCK then n_blocks + 1 else n_blocks)))"

definition init_tiles :: "string \<Rightarrow> init_state" where
  "init_tiles tile_characters =
     fold init_tile (zip [0..<length tile_characters] tile_characters)
       ([], [], None, None, 0)"

text \<open>The loop \<^verbatim>\<open>for i in range(len(string_split[2]))\<close> that hides the items under the
  block tiles; \<open>rnd i\<close> is the draw of the random generator in iteration \<open>i\<close>.\<close>

fun place_items ::
  "(nat \<Rightarrow> nat) \<Rightarrow> nat \<Rightarrow> string \<Rightarrow> MapTile list list \<times> (nat \<times> nat) list
   \<Rightarrow> (MapTile list list \<times> (nat \<times> nat) list) option" where
  "place_items rnd i [] s = Some s"
| "place_items rnd i (letter # letters) s =
     (case random_choice (rnd i) (snd s) of
        None \<Rightarrow> None
      | Some random_tile \<Rightarrow>
          place_items rnd (i + 1) letters
            (set_tile random_tile (\<lambda>t. t\<lparr>item := Some (letter_to_item letter)\<rparr>) (fst s),
             remove1 random_tile (snd s)))"

text \<open>
  The first part of \<^verbatim>\<open>GameMap.__init__\<close>, up to the placement of the items: the result is
  the tile grid and \<^verbatim>\<open>number_of_blocks\<close>. An exception raised here leaves the constructor,
  so the map is not constructed.
\<close>

definition GameMap_init_tiles :: "(nat \<Rightarrow> nat) \<Rightarrow> string \<Rightarrow> (MapTile list list \<times> int) option" where
  "GameMap_init_tiles rnd map_data0 =
     (let map_data = filter (\<lambda>c. c \<noteq> CHR '' '' \<and> c \<noteq> CHR 0x0A) map_data0;
          string_split = split_on CHR '';'' map_data
      in if length string_split < 4 then None
         else
           (case init_tiles (string_split ! 3) of
              (ts, block_tiles, teleport_a_tile, teleport_b_tile, n_blocks) \<Rightarrow>
                map_option (\<lambda>r. (fst r, n_blocks))
                  (place_items rnd 0 (string_split ! 2) (ts, block_tiles))))"

text \<open>Map data for a map of 15 by 11 tiles with a single Block tile, at \<open>(0, 0)\<close>, and the
  given items to hide.\<close>

definition one_block_map_data :: "string \<Rightarrow> string" where
  "one_block_map_data items =
     ''env;bf;'' @ items @ '';'' @ ''x'' @ replicate 164 CHR ''.''"

section \<open>Tile update\<close>

text \<open>
  The loop over the tiles in \<^verbatim>\<open>GameMap.update\<close>, for the tile object at the index \<open>rc\<close>.
  \<open>tile_destroy_block\<close> is the first statement of the body: a Block tile that is marked and
  carries no flame becomes Floor.
\<close>

definition tile_destroy_block :: "nat \<times> nat \<Rightarrow> GameMap \<Rightarrow> GameMap option" where
  "tile_destroy_block rc m =
     (let tile = tile_at m rc
      in if to_be_destroyed tile \<and> kind tile = TILE_BLOCK
         then (case tile_has_flame m (coordinates tile) of
                 None \<Rightarrow> None
               | Some True \<Rightarrow> Some m
               | Some False \<Rightarrow>
                   Some ((update_tile rc (\<lambda>t. t\<lparr>kind := TILE_FLOOR, to_be_destroyed := False\<rparr>) m)
                           \<lparr>number_of_blocks := number_of_blocks m - 1\<rparr>))
         else Some m)"

text \<open>
  The body of the \<^verbatim>\<open>while True\<close> loop over the flames of the tile, for an index \<open>i\<close> below
  the number of flames: the tile is marked or loses its item, the bombs on the tile
  explode, the flame at index \<open>i\<close> gets older and, when its time is below 0, is removed
  from the list (the flame objects of a list being distinct, that is the position \<open>i\<close>).
\<close>

definition tile_flame_step :: "int \<Rightarrow> nat \<times> nat \<Rightarrow> nat \<Rightarrow> GameMap \<Rightarrow> GameMap option" where
  "tile_flame_step dt rc i m =
     (let tile = tile_at m rc;
          m1 = (if kind tile = TILE_BLOCK
                then update_tile rc (\<lambda>t. t\<lparr>to_be_destroyed := True\<rparr>) m
                else if kind tile = TILE_FLOOR \<and> item tile \<noteq> None
                then update_tile rc (\<lambda>t. t\<lparr>item := None\<rparr>) m
                else m);
          bombs_inside_flame = bombs_on_tile m1 (coordinates tile)
      in case fold_option bomb_explodes bombs_inside_flame m1 of
           None \<Rightarrow> None
         | Some m2 \<Rightarrow>
             (let fs = flames (tile_at m2 rc)
              in if i < length fs
                 then (let flame = (fs ! i)\<lparr>time_to_burnout := time_to_burnout (fs ! i) - dt\<rparr>
                       in Some (update_tile rc
                                  (\<lambda>t. t\<lparr>flames := (if time_to_burnout flame < 0
                                                       then take i fs @ drop (Suc i) fs
                                                       else fs[i := flame])\<rparr>) m2))
                 else None))"

partial_function (option) tile_flames_loop ::
  "int \<Rightarrow> nat \<times> nat \<Rightarrow> nat \<Rightarrow> GameMap \<Rightarrow> GameMap option" where
  "tile_flames_loop dt rc i m =
     (if i \<ge> length (flames (tile_at m rc)) then Some m
      else (case tile_flame_step dt rc i m of
              None \<Rightarrow> None
            | Some m' \<Rightarrow> tile_flames_loop dt rc (i + 1) m'))"

declare tile_flames_loop.simps [code]

definition update_map_tile :: "int \<Rightarrow> nat \<times> nat \<Rightarrow> GameMap \<Rightarrow> GameMap option" where
  "update_map_tile dt rc m =
     (case tile_destroy_block rc m of
        None \<Rightarrow> None
      | Some m1 \<Rightarrow> tile_flames_loop dt rc 0 m1)"

text \<open>\<^verbatim>\<open>for line in self.tiles: for tile in line\<close>.\<close>

definition update_tiles :: "int \<Rightarrow> GameMap \<Rightarrow> GameMap option" where
  "update_tiles dt m =
     fold_option (update_map_tile dt)
       (concat (map (\<lambda>r. map (Pair r) [0..<length (tiles m ! r)]) [0..<length (tiles m)]))
       m"

text \<open>What is observed of a tile: its kind, its mark, and the remaining times of its
  flames.\<close>

definition tile_state :: "nat \<times> nat \<Rightarrow> GameMap \<Rightarrow> tile_kind \<times> bool \<times> int list" where
  "tile_state rc m =
     (kind (tile_at m rc), to_be_destroyed (tile_at m rc),
      map time_to_burnout (flames (tile_at m rc)))"

text \<open>The invariant of the flame loop on a Block tile \<open>rc\<close> that carries flame when the loop
  starts, \<open>N\<close> being the number of blocks.\<close>

definition block_flames_inv :: "nat \<times> nat \<Rightarrow> int \<Rightarrow> nat \<Rightarrow> GameMap \<Rightarrow> bool" where
  "block_flames_inv rc N i m =
     (grid_wf m \<and> distinct (bombs m) \<and> kind (tile_at m rc) = TILE_BLOCK
      \<and> number_of_blocks m = N
      \<and> (if i = 0 then flames (tile_at m rc) \<noteq> [] else to_be_destroyed (tile_at m rc)))"

section \<open>Player input\<close>

text \<open>An input action \<^verbatim>\<open>PlayerActions(player, action)\<close> is a pair of the player number and
  the action code of \<^verbatim>\<open>PlayerKeyMaps\<close>.\<close>

type_synonym PlayerActions = "int \<times> int"

definition ACTION_UP :: int where "ACTION_UP = 0"
definition ACTION_RIGHT :: int where "ACTION_RIGHT = 1"
definition ACTION_DOWN :: int where "ACTION_DOWN = 2"
definition ACTION_LEFT :: int where "ACTION_LEFT = 3"
definition ACTION_BOMB :: int where "ACTION_BOMB = 4"
definition ACTION_SPECIAL :: int where "ACTION_SPECIAL = 5"
definition ACTION_MENU :: int where "ACTION_MENU = 6"
definition ACTION_BOMB_DOUBLE :: int where "ACTION_BOMB_DOUBLE = 7"

definition get_opposite_action :: "int \<Rightarrow> int" where
  "get_opposite_action action =
     (if action = ACTION_UP then ACTION_DOWN
      else if action = ACTION_RIGHT then ACTION_LEFT
      else if action = ACTION_DOWN then ACTION_UP
      else if action = ACTION_LEFT then ACTION_RIGHT
      else action)"

definition SLOW_SPEED :: real where "SLOW_SPEED = 3/2"
definition JUMP_DURATION :: int where "JUMP_DURATION = 2000"
definition TELEPORT_DURATION :: int where "TELEPORT_DURATION = 1500"
definition WALL_MARGIN_HORIZONTAL :: real where "WALL_MARGIN_HORIZONTAL = 2/10"
definition WALL_MARGIN_VERTICAL :: real where "WALL_MARGIN_VERTICAL = 4/10"

text \<open>The player object with reference \<open>pr\<close>, and its in-place mutation.\<close>

definition player_of :: "GameMap \<Rightarrow> nat \<Rightarrow> Player" where
  "player_of m pr = players m ! pr"

definition set_player :: "nat \<Rightarrow> (Player \<Rightarrow> Player) \<Rightarrow> GameMap \<Rightarrow> GameMap" where
  "set_player pr f m = m\<lparr>players := (players m)[pr := f (players m ! pr)]\<rparr>"

definition get_direction_vector :: "Player \<Rightarrow> Position" where
  "get_direction_vector p =
     (if state p \<in> set [STATE_WALKING_UP, STATE_IDLE_UP] then (0, - 1)
      else if state p \<in> set [STATE_WALKING_RIGHT, STATE_IDLE_RIGHT] then (1, 0)
      else if state p \<in> set [STATE_WALKING_DOWN, STATE_IDLE_DOWN] then (0, 1)
      else (- 1, 0))"

definition get_forward_tile_position :: "Player \<Rightarrow> Position" where
  "get_forward_tile_position p = Position_add (get_tile_position p) (get_direction_vector p)"

text \<open>\<^verbatim>\<open>Bomb.__init__\<close>, for the player object \<open>p\<close> with reference \<open>pr\<close>.\<close>

definition Bomb_init :: "Player \<Rightarrow> nat \<Rightarrow> Bomb" where
  "Bomb_init p pr =
     move_to_tile_center
       \<lparr>position = position p, time_of_existence = 0, bomb_flame_length = flame_length p,
        bomb_player = pr, explodes_in = BOMB_EXPLODES_IN, detonator_time = 0,
        bomb_has_spring = has_spring p, movement = BOMB_NO_MOVEMENT, has_exploded = False,
        flight_info = \<lparr>total_distance_to_travel = 0, distance_travelled = 0, direction = (0, 0)\<rparr>\<rparr>"

text \<open>\<^verbatim>\<open>GameMap.add_bomb\<close>: the new object gets the next unused reference.\<close>

definition add_bomb :: "Bomb \<Rightarrow> GameMap \<Rightarrow> GameMap" where
  "add_bomb bomb m =
     m\<lparr>bombs := bombs m @ [bomb_alloc m],
       bomb_store := (bomb_store m)(bomb_alloc m := Some bomb),
       bomb_alloc := bomb_alloc m + 1\<rparr>"

text \<open>\<^verbatim>\<open>Player.lay_bomb\<close> of the player \<open>pr\<close>. The result holds the new bomb object as it is
  when the method returns.\<close>

definition lay_bomb :: "nat \<Rightarrow> Position option \<Rightarrow> GameMap \<Rightarrow> GameMap" where
  "lay_bomb pr tile_coordinates m =
     (let self = player_of m pr;
          new_bomb0 = Bomb_init self pr;
          new_bomb1 = (case tile_coordinates of
                         None \<Rightarrow> new_bomb0
                       | Some t \<Rightarrow>
                           move_to_tile_center
                             (new_bomb0\<lparr>position := (of_int (fst t), of_int (snd t))\<rparr>));
          new_bomb2 = (if player_disease self = DISEASE_SHORT_FLAME
                       then new_bomb1\<lparr>bomb_flame_length := 1\<rparr>
                       else if player_disease self = DISEASE_FAST_BOMB
                       then new_bomb1\<lparr>explodes_in := EXPLODES_IN_QUICK\<rparr>
                       else new_bomb1);
          new_bomb = (if detonator_bombs_left self > 0
                      then new_bomb2\<lparr>detonator_time := DETONATOR_EXPIRATION_TIME\<rparr>
                      else new_bomb2);
          m1 = add_sound_event SOUND_EVENT_BOMB_PUT (add_bomb new_bomb m)
      in set_player pr
           (\<lambda>p. let p1 = p\<lparr>bombs_left := bombs_left p - 1\<rparr>
                in if detonator_bombs_left p1 > 0
                   then p1\<lparr>detonator_bombs := detonator_bombs p1 @ [bomb_alloc m],
                           detonator_bombs_left := detonator_bombs_left p1 - 1\<rparr>
                   else p1)
           m1)"

text \<open>The \<^verbatim>\<open>while\<close> loop of the special action: bombs are popped from the end of
  \<^verbatim>\<open>detonator_bombs\<close> until one can be detonated. The argument is the list reversed; the
  result is the bomb found, if any, and what is left of the reversed list.\<close>

primrec pop_detonator_bomb :: "GameMap \<Rightarrow> nat list \<Rightarrow> nat option \<times> nat list" where
  "pop_detonator_bomb m [] = (None, [])"
| "pop_detonator_bomb m (bomb_to_check # rest) =
     (if has_detonator (bomb_of m bomb_to_check)
         \<and> \<not> has_exploded (bomb_of m bomb_to_check)
         \<and> movement (bomb_of m bomb_to_check) \<noteq> BOMB_FLYING
      then (Some bomb_to_check, rest)
      else pop_detonator_bomb m rest)"

text \<open>
  The body of the loop of \<^verbatim>\<open>__manage_input_actions\<close> for one item of the input list. The
  local variables \<open>moved\<close>, \<open>detonator_triggered\<close>, \<open>special_was_pressed\<close> and
  \<open>bomb_was_pressed\<close> are carried along with the map.
\<close>

record input_flags =
  moved :: bool
  detonator_triggered :: bool
  special_was_pressed :: bool
  bomb_was_pressed :: bool

definition move_player :: "int \<Rightarrow> real \<Rightarrow> Player \<Rightarrow> Player option" where
  "move_player input_action distance_to_travel p =
     (if input_action = ACTION_UP
      then Some (p\<lparr>position := (fst (position p), snd (position p) - distance_to_travel),
                   state := STATE_WALKING_UP\<rparr>)
      else if input_action = ACTION_DOWN
      then Some (p\<lparr>position := (fst (position p), snd (position p) + distance_to_travel),
                   state := STATE_WALKING_DOWN\<rparr>)
      else if input_action = ACTION_RIGHT
      then Some (p\<lparr>position := (fst (position p) + distance_to_travel, snd (position p)),
                   state := STATE_WALKING_RIGHT\<rparr>)
      else if input_action = ACTION_LEFT
      then Some (p\<lparr>position := (fst (position p) - distance_to_travel, snd (position p)),
                   state := STATE_WALKING_LEFT\<rparr>)
      else None)"

definition special_action :: "nat \<Rightarrow> input_flags \<times> GameMap \<Rightarrow> (input_flags \<times> GameMap) option" where
  "special_action pr s =
     (let fl = (fst s)\<lparr>special_was_pressed := True\<rparr>; m = snd s; self = player_of m pr
      in if wait_for_special_release self then Some (fl, m)
         else
           (case
              (if detonator_bombs self = [] then Some (fl, m)
               else
                 (case pop_detonator_bomb m (rev (detonator_bombs self)) of
                    (found, rest) \<Rightarrow>
                      (let m1 = set_player pr
                                  (\<lambda>p. p\<lparr>info_board_update_needed := True,
                                          detonator_bombs := rev rest\<rparr>) m
                       in case found of
                            None \<Rightarrow> Some (fl, m1)
                          | Some b \<Rightarrow>
                              map_option
                                (\<lambda>m2. (fl\<lparr>detonator_triggered := True\<rparr>,
                                       set_player pr
                                         (\<lambda>p. p\<lparr>wait_for_special_release := True\<rparr>) m2))
                                (bomb_explodes b m1)))) of
              None \<Rightarrow> None
            | Some (fl1, m1) \<Rightarrow>
                Some (fl1,
                      if \<not> detonator_triggered fl1 \<and> has_boxing_glove (player_of m1 pr)
                      then set_player pr (\<lambda>p. p\<lparr>boxing := True\<rparr>) m1 else m1)))"

definition input_action_step ::
  "nat \<Rightarrow> real \<Rightarrow> PlayerActions \<Rightarrow> input_flags \<times> GameMap \<Rightarrow> (input_flags \<times> GameMap) option" where
  "input_action_step pr distance_to_travel input_item s =
     (if fst input_item \<noteq> number (player_of (snd s) pr) then Some s
      else
        (let input_action =
               (if player_disease (player_of (snd s) pr) = DISEASE_REVERSE_CONTROLS
                then get_opposite_action (snd input_item) else snd input_item);
             s1 = (if \<not> moved (fst s)
                   then (case move_player input_action distance_to_travel (player_of (snd s) pr) of
                           None \<Rightarrow> s
                         | Some p \<Rightarrow> ((fst s)\<lparr>moved := True\<rparr>, set_player pr (\<lambda>_. p) (snd s)))
                   else s);
             s2 = (if input_action = ACTION_BOMB
                   then ((fst s1)\<lparr>bomb_was_pressed := True\<rparr>,
                         (let self = player_of (snd s1) pr
                          in if \<not> wait_for_bomb_release self \<and> bombs_left self \<ge> 1
                                \<and> \<not> tile_has_bomb (snd s1) (position_to_tile (position self))
                                \<and> \<not> player_disease self = DISEASE_NO_BOMB
                             then set_player pr (\<lambda>p. p\<lparr>putting_bomb := True\<rparr>) (snd s1)
                             else snd s1))
                   else s1);
             s3 = (if input_action = ACTION_BOMB_DOUBLE
                   then (fst s2,
                         (let self = player_of (snd s2) pr
                          in if has_throwing_glove self
                             then set_player pr (\<lambda>p. p\<lparr>throwing := True\<rparr>) (snd s2)
                             else if has_multibomb self
                             then set_player pr (\<lambda>p. p\<lparr>putting_multibomb := True\<rparr>) (snd s2)
                             else snd s2))
                   else s2)
         in if input_action = ACTION_SPECIAL then special_action pr s3 else Some s3))"

text \<open>\<^verbatim>\<open>Player.__manage_input_actions\<close>.\<close>

definition manage_input_actions ::
  "nat \<Rightarrow> PlayerActions list \<Rightarrow> real \<Rightarrow> GameMap \<Rightarrow> GameMap option" where
  "manage_input_actions pr input_actions distance_to_travel m =
     (case fold_option (input_action_step pr distance_to_travel) input_actions
             (\<lparr>moved = False, detonator_triggered = False, special_was_pressed = False,
               bomb_was_pressed = False\<rparr>, m) of
        None \<Rightarrow> None
      | Some (fl, m1) \<Rightarrow>
          (let m2 = (if moved fl then add_sound_event SOUND_EVENT_WALK m1 else m1);
               m3 = (if \<not> special_was_pressed fl
                     then set_player pr (\<lambda>p. p\<lparr>wait_for_special_release := False\<rparr>) m2
                     else m2)
           in Some (if \<not> bomb_was_pressed fl
                    then set_player pr (\<lambda>p. p\<lparr>wait_for_bomb_release := False\<rparr>) m3
                    else m3)))"

text \<open>\<^verbatim>\<open>GameMap.get_position_collision_type\<close>.\<close>

datatype collision =
    COLLISION_BORDER_UP
  | COLLISION_BORDER_RIGHT
  | COLLISION_BORDER_DOWN
  | COLLISION_BORDER_LEFT
  | COLLISION_TOTAL
  | COLLISION_NONE

definition collision_horizontal :: "GameMap \<Rightarrow> Coordinate \<Rightarrow> collision option" where
  "collision_horizontal m pos =
     (let tile_coordinates = position_to_tile pos
      in if frac (fst pos) < WALL_MARGIN_VERTICAL
         then map_option (\<lambda>w. if \<not> w then COLLISION_BORDER_LEFT else COLLISION_NONE)
                (tile_is_walkable m (fst tile_coordinates - 1, snd tile_coordinates))
         else if frac (fst pos) > 1 - WALL_MARGIN_VERTICAL
         then map_option (\<lambda>w. if \<not> w then COLLISION_BORDER_RIGHT else COLLISION_NONE)
                (tile_is_walkable m (fst tile_coordinates + 1, snd tile_coordinates))
         else Some COLLISION_NONE)"

definition get_position_collision_type :: "GameMap \<Rightarrow> Coordinate \<Rightarrow> collision option" where
  "get_position_collision_type m pos =
     (let tile_coordinates = position_to_tile pos
      in case tile_is_walkable m tile_coordinates of
           None \<Rightarrow> None
         | Some False \<Rightarrow> Some COLLISION_TOTAL
         | Some True \<Rightarrow>
             (if frac (snd pos) < WALL_MARGIN_HORIZONTAL
              then (case tile_is_walkable m (fst tile_coordinates, snd tile_coordinates - 1) of
                      None \<Rightarrow> None
                    | Some False \<Rightarrow> Some COLLISION_BORDER_UP
                    | Some True \<Rightarrow> collision_horizontal m pos)
              else if frac (snd pos) > 1 - WALL_MARGIN_HORIZONTAL
              then (case tile_is_walkable m (fst tile_coordinates, snd tile_coordinates + 1) of
                      None \<Rightarrow> None
                    | Some False \<Rightarrow> Some COLLISION_BORDER_DOWN
                    | Some True \<Rightarrow> collision_horizontal m pos)
              else collision_horizontal m pos))"

text \<open>\<^verbatim>\<open>Player.__resolve_collisions\<close>: the map and whether a collision happened. The
  \<^verbatim>\<open>helper_mapping\<close> gives, for a border, the state that walks against it, the states that
  walk along it, and the sideways shift.\<close>

definition helper_mapping ::
  "real \<Rightarrow> collision \<Rightarrow> (player_state \<times> player_state list \<times> Coordinate) option" where
  "helper_mapping distance_to_travel collision_type =
     (case collision_type of
        COLLISION_BORDER_UP \<Rightarrow>
          Some (STATE_WALKING_UP, [STATE_WALKING_LEFT, STATE_WALKING_RIGHT],
                (distance_to_travel, 0))
      | COLLISION_BORDER_DOWN \<Rightarrow>
          Some (STATE_WALKING_DOWN, [STATE_WALKING_LEFT, STATE_WALKING_RIGHT],
                (- 1 * distance_to_travel, 0))
      | COLLISION_BORDER_RIGHT \<Rightarrow>
          Some (STATE_WALKING_RIGHT, [STATE_WALKING_UP, STATE_WALKING_DOWN],
                (0, - 1 * distance_to_travel))
      | COLLISION_BORDER_LEFT \<Rightarrow>
          Some (STATE_WALKING_LEFT, [STATE_WALKING_UP, STATE_WALKING_DOWN],
                (0, distance_to_travel))
      | _ \<Rightarrow> None)"

definition resolve_collisions ::
  "nat \<Rightarrow> real \<Rightarrow> Coordinate \<Rightarrow> GameMap \<Rightarrow> (GameMap \<times> bool) option" where
  "resolve_collisions pr distance_to_travel previous_position m =
     (case get_position_collision_type m (position (player_of m pr)) of
        None \<Rightarrow> None
      | Some collision_type \<Rightarrow>
          if collision_type = COLLISION_TOTAL
          then Some (set_player pr (\<lambda>p. p\<lparr>position := previous_position\<rparr>) m, True)
          else
            (case helper_mapping distance_to_travel collision_type of
               None \<Rightarrow> Some (m, False)
             | Some helper_values \<Rightarrow>
                 if state (player_of m pr) = fst helper_values
                 then Some (set_player pr (\<lambda>p. p\<lparr>position := previous_position\<rparr>) m, True)
                 else if state (player_of m pr) \<in> set (fst (snd helper_values))
                 then Some (set_player pr
                              (\<lambda>p. p\<lparr>position :=
                                       (fst (position p) + fst (snd (snd helper_values)),
                                        snd (position p) + snd (snd (snd helper_values)))\<rparr>) m,
                            False)
                 else Some (m, False)))"

text \<open>\<^verbatim>\<open>Player.__manage_kick_box\<close>.\<close>

definition manage_kick_box :: "nat \<Rightarrow> bool \<Rightarrow> GameMap \<Rightarrow> GameMap" where
  "manage_kick_box pr collision_happened m =
     (if collision_happened
      then
        (let self = player_of m pr;
             bomb_movement =
               (if state self = STATE_WALKING_UP then BOMB_ROLLING_UP
                else if state self = STATE_WALKING_RIGHT then BOMB_ROLLING_RIGHT
                else if state self = STATE_WALKING_DOWN then BOMB_ROLLING_DOWN
                else if state self = STATE_WALKING_LEFT then BOMB_ROLLING_LEFT
                else BOMB_NO_MOVEMENT);
             direction_vector = get_direction_vector self;
             forward_tile = get_forward_tile_position self
         in if (has_shoe self \<or> has_boxing_glove self) \<and> tile_has_bomb m forward_tile
            then
              (case bomb_on_tile m forward_tile of
                 None \<Rightarrow> m
               | Some bomb_hit \<Rightarrow>
                   if boxing self
                   then add_sound_event SOUND_EVENT_KICK
                          (set_bomb bomb_hit
                             (send_flying
                                (Position_add forward_tile (Position_mul_num direction_vector 3)))
                             m)
                   else if has_shoe self
                   then add_sound_event SOUND_EVENT_KICK
                          (set_bomb bomb_hit
                             (\<lambda>bomb.
                                (if bomb_movement \<in> set [BOMB_ROLLING_LEFT, BOMB_ROLLING_RIGHT]
                                 then bomb\<lparr>position :=
                                        (of_int \<lfloor>fst (position bomb)\<rfloor> + 1/2, snd (position bomb))\<rparr>
                                 else bomb\<lparr>position :=
                                        (of_int \<lfloor>fst (position bomb)\<rfloor>, snd (position bomb) + 1/2)\<rparr>)
                                \<lparr>movement := bomb_movement\<rparr>)
                             m)
                   else m)
            else m)
      else m)"

text \<open>The \<^verbatim>\<open>while self.bombs_left > 0\<close> loop of the multibomb.\<close>

partial_function (option) multibomb_loop ::
  "nat \<Rightarrow> Position \<Rightarrow> Position \<Rightarrow> int \<Rightarrow> GameMap \<Rightarrow> GameMap option" where
  "multibomb_loop pr current_tile tile_step i m =
     (if bombs_left (player_of m pr) > 0
      then
        (let next_tile = Position_add current_tile (Position_mul_num tile_step i)
         in case tile_is_walkable m next_tile of
              None \<Rightarrow> None
            | Some w \<Rightarrow>
                if \<not> w \<or> tile_has_player m next_tile then Some m
                else multibomb_loop pr current_tile tile_step (i + 1)
                       (lay_bomb pr (Some next_tile) m))
      else Some m)"

declare multibomb_loop.simps [code]

text \<open>
  \<^verbatim>\<open>Player.react_to_inputs\<close> of the player \<open>pr\<close>. \<open>react_move\<close> is the method from the
  computation of the speed up to the resolution of collisions (\<open>react_collide\<close>), its
  result being the map, \<^verbatim>\<open>old_state\<close>, \<^verbatim>\<open>current_tile\<close> and \<^verbatim>\<open>collision_happened\<close>;
  \<open>react_place\<close> is the rest.
  The bomb action that the method appends to the caller's list for a player with diarrhea
  is seen by this call only.
\<close>

definition idle_state :: "player_state \<Rightarrow> player_state" where
  "idle_state s =
     (if s \<in> set [STATE_WALKING_UP, STATE_IDLE_UP] then STATE_IDLE_UP
      else if s \<in> set [STATE_WALKING_RIGHT, STATE_IDLE_RIGHT] then STATE_IDLE_RIGHT
      else if s \<in> set [STATE_WALKING_DOWN, STATE_IDLE_DOWN] then STATE_IDLE_DOWN
      else STATE_IDLE_LEFT)"

definition react_collide ::
  "nat \<Rightarrow> real \<Rightarrow> Coordinate \<Rightarrow> player_state \<Rightarrow> GameMap
   \<Rightarrow> (GameMap \<times> player_state \<times> Position \<times> bool) option" where
  "react_collide pr distance_to_travel previous_position old_state m2 =
     (let current_tile = get_tile_position (player_of m2 pr);
          previous_tile = position_to_tile previous_position;
          transitioning_tiles = (current_tile \<noteq> previous_tile);
          m3 = (if transitioning_tiles
                then set_player pr (\<lambda>p. p\<lparr>wait_for_tile_transition := False\<rparr>) m2
                else m2);
          check_collisions = \<not> (tile_has_bomb m3 current_tile \<and> \<not> transitioning_tiles)
      in if check_collisions
         then map_option (\<lambda>r. (fst r, old_state, current_tile, snd r))
                (resolve_collisions pr distance_to_travel previous_position m3)
         else Some (m3, old_state, current_tile, False))"

definition react_move ::
  "nat \<Rightarrow> PlayerActions list \<Rightarrow> int \<Rightarrow> GameMap
   \<Rightarrow> (GameMap \<times> player_state \<times> Position \<times> bool) option" where
  "react_move pr input_actions0 dt m0 =
     (let self = player_of m0 pr;
          current_speed = (if player_disease self \<noteq> DISEASE_SLOW then speed self
                           else SLOW_SPEED);
          distance_to_travel = of_int dt / 1000 * current_speed;
          old_state = state self;
          previous_position = position self;
          m1 = set_player pr
                 (\<lambda>p. p\<lparr>throwing_time_left := max 0 (throwing_time_left p - dt),
                         state := idle_state (state p),
                         putting_bomb := False, putting_multibomb := False,
                         throwing := False, boxing := False\<rparr>) m0;
          input_actions = (if player_disease self = DISEASE_DIARRHEA
                           then input_actions0 @ [(number self, ACTION_BOMB)]
                           else input_actions0)
      in case manage_input_actions pr input_actions distance_to_travel m1 of
           None \<Rightarrow> None
         | Some m2 \<Rightarrow>
             react_collide pr distance_to_travel previous_position old_state m2)"

definition react_place ::
  "nat \<Rightarrow> int \<Rightarrow> GameMap \<times> player_state \<times> Position \<times> bool \<Rightarrow> GameMap option" where
  "react_place pr dt s =
     (case s of (m3, old_state, current_tile, collision_happened) \<Rightarrow>
      (case
         (if putting_bomb (player_of m3 pr)
             \<and> \<not> tile_has_bomb m3 (get_tile_position (player_of m3 pr))
          then map_option (\<lambda>teleport. if \<not> teleport then lay_bomb pr None m3 else m3)
                 (tile_has_teleport m3 (position_to_tile (position (player_of m3 pr))))
          else Some m3) of
         None \<Rightarrow> None
       | Some m4 \<Rightarrow>
      (let m5 = manage_kick_box pr collision_happened m4
       in case
            (if throwing (player_of m5 pr)
             then
               (let bomb_thrown = bomb_on_tile m5 current_tile;
                    m6 = add_sound_event SOUND_EVENT_THROW m5
                in case bomb_thrown of
                     None \<Rightarrow> Some m6
                   | Some b \<Rightarrow>
                       Some (set_player pr
                               (\<lambda>p. p\<lparr>wait_for_bomb_release := True, throwing_time_left := 200\<rparr>)
                               (set_bomb b
                                  (send_flying
                                     (Position_add (get_forward_tile_position (player_of m6 pr))
                                        (Position_mul_num
                                           (get_direction_vector (player_of m6 pr)) 3)))
                                  m6)))
             else if putting_multibomb (player_of m5 pr)
             then \<comment> \<open>\<^verbatim>\<open>tile_increment\<close> is chosen by the state as in \<^verbatim>\<open>get_direction_vector\<close>\<close>
                  multibomb_loop pr (get_tile_position (player_of m5 pr))
                    (get_direction_vector (player_of m5 pr)) 1 m5
             else Some m5) of
            None \<Rightarrow> None
          | Some m7 \<Rightarrow>
              (let m8 = (if player_disease (player_of m7 pr) \<noteq> DISEASE_NONE
                         then set_player pr
                                (\<lambda>p. let t = max 0 (disease_time_left p - dt)
                                     in if t = 0
                                        then p\<lparr>disease_time_left := t,
                                               player_disease := DISEASE_NONE,
                                               info_board_update_needed := True\<rparr>
                                        else p\<lparr>disease_time_left := t\<rparr>) m7
                         else m7)
               in Some (set_player pr
                          (\<lambda>p. p\<lparr>state_time := (if old_state = state p then state_time p + dt
                                                  else 0)\<rparr>) m8)))))"

definition react_to_inputs :: "nat \<Rightarrow> PlayerActions list \<Rightarrow> int \<Rightarrow> GameMap \<Rightarrow> GameMap option" where
  "react_to_inputs pr input_actions dt m =
     (let self = player_of m pr
      in if state self = STATE_DEAD \<or> map_state m = STATE_WAITING_TO_PLAY then Some m
         else
           (case
              (if state self \<in> set [STATE_IN_AIR, STATE_TELEPORTING]
               then (let m1 = set_player pr (\<lambda>p. p\<lparr>state_time := state_time p + dt\<rparr>) m
                     in if state_time (player_of m1 pr) \<ge>
                             (if state self = STATE_IN_AIR then JUMP_DURATION
                              else TELEPORT_DURATION)
                        then Inr (set_player pr
                                    (\<lambda>p. p\<lparr>state := state_backup p, state_time := 0,
                                            jumping_to := None, teleporting_to := None\<rparr>) m1)
                        else Inl m1)
               else Inr m) of
              Inl m1 \<Rightarrow> Some m1
            | Inr m0 \<Rightarrow>
                (case react_move pr input_actions dt m0 of
                   None \<Rightarrow> None
                 | Some s \<Rightarrow> react_place pr dt s)))"

text \<open>What the handling of the inputs of the player \<open>pr\<close> keeps when no bomb is laid and
  none explodes: the grid, the bomb list, the number of players, and the player's number
  and \<open>bombs_left\<close>.\<close>

definition keeps_bombs :: "nat \<Rightarrow> GameMap \<Rightarrow> GameMap \<Rightarrow> bool" where
  "keeps_bombs pr m m' =
     (tiles m' = tiles m \<and> bombs m' = bombs m
      \<and> length (players m') = length (players m)
      \<and> bombs_left (player_of m' pr) = bombs_left (player_of m pr)
      \<and> number (player_of m' pr) = number (player_of m pr))"

section \<open>Example maps\<close>

text \<open>\<^verbatim>\<open>Player.__init__\<close>; the intent flags, which the source first sets in
  \<^verbatim>\<open>react_to_inputs\<close>, start as False.\<close>

definition Player_init :: Player where
  "Player_init =
     \<lparr>position = (0, 0), number = 0, team_number = 0, state = STATE_IDLE_DOWN, state_time = 0,
      speed = 3, bombs_left = 1, flame_length = 1, has_spring = False, has_shoe = False,
      disease_time_left = 0, player_disease = DISEASE_NONE, has_multibomb = False,
      has_boxing_glove = False, has_throwing_glove = False, boxing = False,
      detonator_bombs_left = 0, detonator_bombs = [], wait_for_special_release = False,
      wait_for_bomb_release = False, throwing_time_left = 0, state_backup = STATE_IDLE_UP,
      jumping_to = Some (0, 0), teleporting_to = Some (0, 0), wait_for_tile_transition = False,
      info_board_update_needed = True, putting_bomb = False, putting_multibomb = False,
      throwing = False\<rparr>"

text \<open>Example maps. \<open>example_map\<close>: a Wall at \<open>(7, 5)\<close>, a Block at \<open>(3, 5)\<close>, lava at
  \<open>(5, 8)\<close>, floor elsewhere; one player standing at tile \<open>(1, 1)\<close>; one stationary bomb of
  that player at tile \<open>(5, 5)\<close> with flame length 3.\<close>

definition example_tile :: "Position \<Rightarrow> MapTile" where
  "example_tile p =
     (MapTile_init p)
       \<lparr>kind := (if p = (7, 5) then TILE_WALL else if p = (3, 5) then TILE_BLOCK else TILE_FLOOR),
        special_object := (if p = (5, 8) then Some SPECIAL_OBJECT_LAVA else None)\<rparr>"

definition example_player :: Player where
  "example_player = Player_init\<lparr>position := (3/2, 3/2), flame_length := 3, bombs_left := 0\<rparr>"

definition example_bomb :: Bomb where
  "example_bomb = (Bomb_init example_player 0)\<lparr>position := (11/2, 11/2)\<rparr>"

definition example_map :: GameMap where
  "example_map =
     \<lparr>tiles = map (\<lambda>r. map (\<lambda>c. example_tile (int c, int r)) [0..<15]) [0..<11],
      bombs = [0], bomb_store = (\<lambda>_. None)(0 := Some example_bomb), bomb_alloc = 1,
      players = [example_player],
      danger_map = [], danger_map_is_up_to_date = False, number_of_blocks = 1,
      sound_events = [], map_state = STATE_PLAYING\<rparr>"

text \<open>\<open>overdue_map\<close>: the same map while that bomb, thrown at the age of 2900 ms, is flying
  to the Wall tile \<open>(7, 5)\<close> and is 3500 ms old.\<close>

definition overdue_map :: GameMap where
  "overdue_map =
     example_map\<lparr>bomb_store := (\<lambda>_. None)(0 := Some (example_bomb
        \<lparr>position := (15/2, 11/2), time_of_existence := 3500, movement := BOMB_FLYING,
         flight_info := \<lparr>total_distance_to_travel = 4, distance_travelled = 3,
                          direction = (1, 0)\<rparr>\<rparr>))\<rparr>"


text \<open>\<open>lava_map\<close>: the same map with the fresh stationary bomb on the lava tile \<open>(5, 8)\<close>.
  \<open>landing_map\<close>: the bomb, thrown along the row, is about to complete a flight of three
  tiles over the Floor tile \<open>(8, 5)\<close>, on which the player stands.\<close>

definition lava_map :: GameMap where
  "lava_map =
     example_map\<lparr>bomb_store := (\<lambda>_. None)(0 := Some (example_bomb\<lparr>position := (11/2, 17/2)\<rparr>))\<rparr>"

definition landing_map :: GameMap where
  "landing_map =
     example_map\<lparr>bomb_store := (\<lambda>_. None)(0 := Some (example_bomb
        \<lparr>position := (17/2, 11/2), time_of_existence := 600, movement := BOMB_FLYING,
         flight_info := \<lparr>total_distance_to_travel = 3, distance_travelled = 29/10,
                          direction = (1, 0)\<rparr>\<rparr>)),
        players := [example_player\<lparr>position := (17/2, 11/2)\<rparr>]\<rparr>"

text \<open>\<open>burning_map\<close>: the example map with a fresh flame on the Block tile \<open>(3, 5)\<close>.
  \<open>burnt_map\<close>: the example map with that tile marked and without flame.\<close>

definition burning_map :: GameMap where
  "burning_map = update_tile (5, 3) (\<lambda>t. t\<lparr>flames := [Flame_init 0 ''left'']\<rparr>) example_map"

definition burnt_map :: GameMap where
  "burnt_map = update_tile (5, 3) (\<lambda>t. t\<lparr>to_be_destroyed := True\<rparr>) example_map"

text \<open>\<open>standing_map\<close>: the example map with the player standing on the tile of the bomb,
  with one bomb left. \<open>multibomb_map\<close>: the same with two bombs left and the multibomb
  item. \<open>detonator_map\<close>: the player, with no bomb left, stands on the bomb, which has a
  detonator.\<close>

definition standing_map :: GameMap where
  "standing_map =
     example_map\<lparr>players := [example_player\<lparr>position := (11/2, 11/2), bombs_left := 1\<rparr>]\<rparr>"

definition multibomb_map :: GameMap where
  "multibomb_map =
     example_map\<lparr>players := [example_player\<lparr>position := (11/2, 11/2), bombs_left := 2,
                                              has_multibomb := True\<rparr>]\<rparr>"


text \<open>What is observed of the bombs: the bomb list and the \<open>bombs_left\<close> of the player.\<close>

definition bombs_state :: "nat \<Rightarrow> GameMap \<Rightarrow> nat list \<times> int" where
  "bombs_state pr m = (bombs m, bombs_left (player_of m pr))"


section \<open>Tile queries\<close>

lemma tile_is_withing_map_iff:
  "tile_is_withing_map p \<longleftrightarrow> 0 \<le> fst p \<and> fst p \<le> 14 \<and> 0 \<le> snd p \<and> snd p \<le> 10"
  by (auto simp: tile_is_withing_map_def Position_ge_def Position_le_def Position_sub_num_def MAP_SIZE_def)

lemma grid_wf_tile_ref:
  assumes "grid_wf m" "tile_is_withing_map p"
  shows "tile_ref (tiles m) p = Some (nat (snd p), nat (fst p))"
proof -
  from assms(2) have b: "0 \<le> fst p" "fst p \<le> 14" "0 \<le> snd p" "snd p \<le> 10"
    by (simp_all add: tile_is_withing_map_iff)
  from assms(1) have len: "length (tiles m) = 11"
    and rows: "\<forall>line \<in> set (tiles m). length line = 15"
    by (auto simp: grid_wf_def MAP_SIZE_def list_all_iff)
  from b len have r: "py_index (tiles m) (snd p) = Some (nat (snd p))"
    by (simp add: py_index_def)
  from b len have "nat (snd p) < length (tiles m)" by simp
  with rows have "length (tiles m ! nat (snd p)) = 15" by simp
  with b have c: "py_index (tiles m ! nat (snd p)) (fst p) = Some (nat (fst p))"
    by (simp add: py_index_def)
  show ?thesis by (simp add: tile_ref_def r c)
qed

lemma bombs_on_tile_empty_iff:
  "tile_has_bomb m p \<longleftrightarrow>
     (\<exists>b \<in> set (bombs m). movement (bomb_of m b) \<noteq> BOMB_FLYING \<and> get_tile_position (bomb_of m b) = p)"
proof -
  have "tile_has_bomb m p \<longleftrightarrow> bombs_on_tile m p \<noteq> []"
    by (simp add: tile_has_bomb_def bomb_on_tile_def split: list.splits)
  then show ?thesis
    by (auto simp: bombs_on_tile_def filter_empty_conv)
qed

text \<open>
  Claim C6. \<^verbatim>\<open>tile_is_walkable\<close> returns False for a coordinate outside the map bounds;
  for a coordinate inside, on a map of eleven rows of fifteen tiles, it returns True if
  and only if the kind of the tile is Floor or its \<open>to_be_destroyed\<close> flag is set, and no
  bomb of the map whose movement is not flying has that tile as its tile position.
\<close>

theorem tile_is_walkable_spec:
  "(\<not> tile_is_withing_map p \<longrightarrow> tile_is_walkable m p = Some False)
   \<and> (grid_wf m \<and> tile_is_withing_map p \<longrightarrow>
        tile_is_walkable m p =
          Some ((kind (tiles m ! nat (snd p) ! nat (fst p)) = TILE_FLOOR
                 \<or> to_be_destroyed (tiles m ! nat (snd p) ! nat (fst p)))
                \<and> \<not> (\<exists>b \<in> set (bombs m).
                        movement (bomb_of m b) \<noteq> BOMB_FLYING
                        \<and> get_tile_position (bomb_of m b) = p)))"
  by (auto simp: tile_is_walkable_def get_tile_def grid_wf_tile_ref tile_at_def
      bombs_on_tile_empty_iff)

lemma example_map_wf: "grid_wf example_map"
  by code_simp

lemma example_map_tile:
  "r < 11 \<Longrightarrow> c < 15 \<Longrightarrow> tiles example_map ! r ! c = example_tile (int c, int r)"
  by (simp add: example_map_def)

lemma example_map_bombs:
  "bombs example_map = [0]" "bomb_of example_map 0 = example_bomb"
  by (simp_all add: example_map_def bomb_of_def)

lemma example_bomb_fields:
  "get_tile_position example_bomb = (5, 5)" "movement example_bomb = BOMB_NO_MOVEMENT"
  "time_of_existence example_bomb = 0" "explodes_in example_bomb = 3000"
  "detonator_time example_bomb = 0" "bomb_flame_length example_bomb = 3"
  "bomb_player example_bomb = 0" "\<not> has_exploded example_bomb"
  by (simp_all add: example_bomb_def example_player_def Player_init_def Bomb_init_def
      move_to_tile_center_def get_tile_position_def position_to_tile_def BOMB_EXPLODES_IN_def)

theorem tile_is_walkable_spec_witness:
  "grid_wf example_map \<and> tile_is_withing_map (4, 5) \<and> \<not> tile_is_withing_map (15, 0)
   \<and> tile_is_walkable example_map (4, 5) = Some True
   \<and> tile_is_walkable example_map (3, 5) = Some False
   \<and> tile_is_walkable example_map (5, 5) = Some False
   \<and> tile_is_walkable example_map (15, 0) = Some False"
  using tile_is_walkable_spec [of "(4, 5)" example_map]
    tile_is_walkable_spec [of "(3, 5)" example_map]
    tile_is_walkable_spec [of "(5, 5)" example_map]
    tile_is_walkable_spec [of "(15, 0)" example_map] example_map_wf
  by (simp add: tile_is_withing_map_iff example_map_tile example_map_bombs
      example_bomb_fields example_tile_def MapTile_init_def)

section \<open>The danger map\<close>

lemma fold_option_total:
  assumes "\<And>x s. x \<in> set xs \<Longrightarrow> I s \<Longrightarrow> \<exists>s'. f x s = Some s' \<and> I s'"
    and "I s"
  shows "\<exists>s'. fold_option f xs s = Some s' \<and> I s'"
  using assms
proof (induction xs arbitrary: s)
  case Nil
  then show ?case by simp
next
  case (Cons x xs)
  from Cons.prems(1) [of x s] Cons.prems(2)
  obtain s1 where s1: "f x s = Some s1" "I s1" by auto
  have "\<exists>s'. fold_option f xs s1 = Some s' \<and> I s'"
    by (rule Cons.IH) (use Cons.prems(1) s1 in auto)
  with s1 show ?case by simp
qed

lemma grid_wf_lengths:
  assumes "grid_wf m"
  shows "length (tiles m) = 11" and "r < 11 \<Longrightarrow> length (tiles m ! r) = 15"
  using assms by (auto simp: grid_wf_def MAP_SIZE_def list_all_iff)

lemma update_danger_entry_wf:
  assumes "grid_wf m"
  shows "danger_grid_wf (update_danger_entry m)"
  using assms
  by (auto simp: danger_grid_wf_def update_danger_entry_def grid_wf_def MAP_SIZE_def
      list_all_iff)

lemma update_danger_entry_cell:
  assumes "grid_wf m" "r < 11" "c < 15"
  shows "update_danger_entry m ! r ! c =
           (if should_not_walk (tiles m ! r ! c) then 0 else SAFE_DANGER_VALUE)"
  using assms grid_wf_lengths [OF assms(1)]
  by (simp add: update_danger_entry_def)

lemma danger_grid_wf_update:
  assumes "danger_grid_wf dm"
  shows "danger_grid_wf (dm[r := (dm ! r)[c := x]])"
proof (cases "r < length dm")
  case True
  have "length line = 15" if "line \<in> set (dm[r := (dm ! r)[c := x]])" for line
  proof -
    from that have "line \<in> insert ((dm ! r)[c := x]) (set dm)"
      using set_update_subset_insert by fastforce
    moreover have "length ((dm ! r)[c := x]) = 15"
      using assms True by (simp add: danger_grid_wf_def)
    ultimately show ?thesis
      using assms by (auto simp: danger_grid_wf_def)
  qed
  with assms show ?thesis by (simp add: danger_grid_wf_def)
next
  case False
  then have "dm[r := (dm ! r)[c := x]] = dm" by (simp add: list_update_beyond)
  with assms show ?thesis by simp
qed

lemma danger_min_total:
  assumes "danger_grid_wf dm" "tile_is_withing_map p"
  shows "danger_min dm p t =
           Some (dm[nat (snd p) := (dm ! nat (snd p))[nat (fst p) := min (dm ! nat (snd p) ! nat (fst p)) t]])"
proof -
  from assms(2) have b: "0 \<le> fst p" "fst p \<le> 14" "0 \<le> snd p" "snd p \<le> 10"
    by (simp_all add: tile_is_withing_map_iff)
  from assms(1) have len: "length dm = 11" by (simp add: danger_grid_wf_def)
  with b have r: "py_index dm (snd p) = Some (nat (snd p))"
    by (simp add: py_index_def)
  from b len have "dm ! nat (snd p) \<in> set dm" by simp
  with assms(1) have "length (dm ! nat (snd p)) = 15" by (simp add: danger_grid_wf_def)
  with b have c: "py_index (dm ! nat (snd p)) (fst p) = Some (nat (fst p))"
    by (simp add: py_index_def)
  show ?thesis by (simp add: danger_min_def r c)
qed

text \<open>A property of one cell that \<open>min\<close> with the bomb's time keeps is kept by every
  write of that time.\<close>

lemma danger_cell_update:
  assumes "P (dm ! r0 ! c0)" "P (dm ! r0 ! c0) \<Longrightarrow> P (min (dm ! r0 ! c0) t)"
  shows "P ((dm[r := (dm ! r)[c := min (dm ! r ! c) t]]) ! r0 ! c0)"
proof (cases "r = r0 \<and> c = c0 \<and> r < length dm \<and> c < length (dm ! r)")
  case True
  with assms show ?thesis by auto
next
  case False
  then have "(dm[r := (dm ! r)[c := min (dm ! r ! c) t]]) ! r0 ! c0 = dm ! r0 ! c0"
    by (cases "r < length dm"; cases "r = r0"; cases "c = c0")
      (auto simp: list_update_beyond)
  with assms show ?thesis by simp
qed

lemma tile_is_walkable_total:
  assumes "grid_wf m"
  shows "\<exists>w. tile_is_walkable m p = Some w"
  using assms
  by (cases "tile_is_withing_map p")
    (auto simp: tile_is_walkable_def get_tile_def grid_wf_tile_ref)

lemma danger_direction_step_inv:
  assumes "grid_wf m" "danger_inv P r0 c0 s" "\<And>x. P x \<Longrightarrow> P (min x t)"
  shows "\<exists>s'. danger_direction_step m t d s = Some s' \<and> danger_inv P r0 c0 s'"
proof -
  obtain pos flame_stop dm where s: "s = (pos, flame_stop, dm)" by (cases s)
  from assms(2) s have wf: "danger_grid_wf dm" and P: "P (dm ! r0 ! c0)"
    by (simp_all add: danger_inv_def)
  from tile_is_walkable_total [OF assms(1)]
  obtain w where w: "tile_is_walkable m (pos ! d) = Some w" by blast
  show ?thesis
  proof (cases "flame_stop ! d \<or> \<not> w \<or> \<not> tile_is_withing_map (pos ! d)")
    case True
    then show ?thesis
      using assms(2) by (auto simp: danger_direction_step_def s w danger_inv_def)
  next
    case False
    let ?q = "pos ! d"
    let ?dm = "dm[nat (snd ?q) := (dm ! nat (snd ?q))[nat (fst ?q) := min (dm ! nat (snd ?q) ! nat (fst ?q)) t]]"
    from False have "danger_min dm ?q t = Some ?dm"
      using danger_min_total [OF wf] by simp
    moreover have "danger_grid_wf ?dm" by (rule danger_grid_wf_update [OF wf])
    moreover have "P (?dm ! r0 ! c0)"
      by (rule danger_cell_update [where P = P, OF P]) (rule assms(3))
    ultimately show ?thesis
      using False by (simp add: danger_direction_step_def s w danger_inv_def)
  qed
qed

lemma update_danger_bomb_inv:
  assumes "grid_wf m" "danger_grid_wf dm" "P (dm ! r0 ! c0)"
    and "tile_is_withing_map (get_tile_position (bomb_of m b))"
    and "\<And>x. P x \<Longrightarrow>
           P (min x (if has_detonator (bomb_of m b) then 100 else time_until_explosion (bomb_of m b)))"
  shows "\<exists>dm'. update_danger_bomb m b dm = Some dm' \<and> danger_grid_wf dm' \<and> P (dm' ! r0 ! c0)"
proof -
  let ?t = "if has_detonator (bomb_of m b) then 100 else time_until_explosion (bomb_of m b)"
  let ?q = "get_tile_position (bomb_of m b)"
  let ?dm = "dm[nat (snd ?q) := (dm ! nat (snd ?q))[nat (fst ?q) := min (dm ! nat (snd ?q) ! nat (fst ?q)) ?t]]"
  have dm1: "danger_min dm ?q ?t = Some ?dm"
    by (rule danger_min_total [OF assms(2) assms(4)])
  have wf1: "danger_grid_wf ?dm" by (rule danger_grid_wf_update [OF assms(2)])
  have P1: "P (?dm ! r0 ! c0)"
    by (rule danger_cell_update [where P = P, OF assms(3)]) (rule assms(5))
  have inner: "\<exists>s'. fold_option (danger_direction_step m ?t) [0, 1, 2, 3] s = Some s'
                    \<and> danger_inv P r0 c0 s'"
    if "danger_inv P r0 c0 s" for s
    by (rule fold_option_total [where I = "danger_inv P r0 c0"])
      (use that assms(1) assms(5) danger_direction_step_inv in blast)+
  have "\<exists>s'. fold_option (\<lambda>i. fold_option (danger_direction_step m ?t) [0, 1, 2, 3])
               [0..<nat (bomb_flame_length (bomb_of m b))] (ps, fs, ?dm) = Some s'
             \<and> danger_inv P r0 c0 s'" for ps fs
    by (rule fold_option_total [where I = "danger_inv P r0 c0"])
      (use inner wf1 P1 in \<open>auto simp: danger_inv_def\<close>)
  then show ?thesis
    unfolding update_danger_bomb_def Let_def dm1
    by (fastforce simp: danger_inv_def)
qed

lemma update_danger_map_inv:
  assumes "grid_wf m" "bombs_within_map m" "r0 < 11" "c0 < 15"
    and "P (if should_not_walk (tiles m ! r0 ! c0) then 0 else SAFE_DANGER_VALUE)"
    and "\<And>b x. b \<in> set (bombs m) \<Longrightarrow> P x \<Longrightarrow>
           P (min x (if has_detonator (bomb_of m b) then 100 else time_until_explosion (bomb_of m b)))"
  shows "\<exists>dm'. update_danger_map m = Some (m\<lparr>danger_map := dm'\<rparr>)
               \<and> danger_grid_wf dm' \<and> P (dm' ! r0 ! c0)"
proof -
  let ?I = "\<lambda>dm. danger_grid_wf dm \<and> P (dm ! r0 ! c0)"
  have "\<exists>dm'. fold_option (update_danger_bomb m) (bombs m) (update_danger_entry m) = Some dm'
              \<and> ?I dm'"
  proof (rule fold_option_total [where I = ?I])
    show "?I (update_danger_entry m)"
      using assms(5) update_danger_entry_wf [OF assms(1)]
        update_danger_entry_cell [OF assms(1) assms(3) assms(4)] by simp
  next
    fix b dm
    assume b: "b \<in> set (bombs m)" and I: "?I dm"
    from b assms(2) have "tile_is_withing_map (get_tile_position (bomb_of m b))"
      by (simp add: bombs_within_map_def list_all_iff)
    then show "\<exists>dm'. update_danger_bomb m b dm = Some dm' \<and> ?I dm'"
      using update_danger_bomb_inv [where P = P, OF assms(1)] I assms(6) [OF b] by blast
  qed
  then show ?thesis by (auto simp: update_danger_map_def)
qed


lemma overdue_map_wf: "grid_wf overdue_map"
  by code_simp

lemma example_map_bombs_within: "bombs_within_map example_map"
  by code_simp

text \<open>
  Claim C8. When a call of \<^verbatim>\<open>get_danger_value\<close> on a tile returns, a second call on the
  same tile in the resulting state returns the same value, and it does not rebuild the
  danger grid: every later call on any tile leaves the map state as it is. The first
  call after the invalidation is the one that runs \<^verbatim>\<open>update_danger_map\<close> and marks the
  grid up to date; a call on an up-to-date map changes nothing.
\<close>

theorem get_danger_value_idempotent:
  assumes "get_danger_value m p = Some (m1, v)"
  shows "danger_map_is_up_to_date m1
         \<and> get_danger_value m1 p = Some (m1, v)
         \<and> (\<forall>q m2 v2. get_danger_value m1 q = Some (m2, v2) \<longrightarrow> m2 = m1)
         \<and> (\<not> danger_map_is_up_to_date m \<longrightarrow>
              (\<exists>m'. update_danger_map m = Some m' \<and> m1 = m'\<lparr>danger_map_is_up_to_date := True\<rparr>))
         \<and> (danger_map_is_up_to_date m \<longrightarrow> m1 = m)"
proof -
  have up: "danger_map_is_up_to_date m1"
    using assms
    by (auto simp: get_danger_value_def split: if_splits option.splits)
  have again: "get_danger_value m1 p = Some (m1, v)"
    using assms up
    by (auto simp: get_danger_value_def split: if_splits option.splits)
  have same: "m2 = m1" if "get_danger_value m1 q = Some (m2, v2)" for q m2 v2
    using that up
    by (auto simp: get_danger_value_def split: if_splits option.splits)
  have first: "\<exists>m'. update_danger_map m = Some m' \<and> m1 = m'\<lparr>danger_map_is_up_to_date := True\<rparr>"
    if "\<not> danger_map_is_up_to_date m"
    using that assms
    by (auto simp: get_danger_value_def split: if_splits option.splits)
  have later: "m1 = m" if "danger_map_is_up_to_date m"
    using that assms
    by (auto simp: get_danger_value_def split: if_splits option.splits)
  from up again same first later show ?thesis by blast
qed

lemma example_danger_value: "map_option snd (get_danger_value example_map (5, 6)) = Some 3000"
  by code_simp

lemma overdue_danger_value: "map_option snd (get_danger_value overdue_map (7, 5)) = Some (- 500)"
  by code_simp


theorem get_danger_value_idempotent_witness:
  "\<exists>m1. get_danger_value example_map (5, 6) = Some (m1, 3000)
        \<and> danger_map_is_up_to_date m1
        \<and> get_danger_value m1 (5, 6) = Some (m1, 3000)"
proof -
  from example_danger_value
  obtain m1 where first: "get_danger_value example_map (5, 6) = Some (m1, 3000)"
    by (cases "get_danger_value example_map (5, 6)") auto
  from get_danger_value_idempotent [OF first] first show ?thesis by blast
qed

text \<open>
  Claim C10, amended. On a map of eleven rows of fifteen tiles whose bombs all lie inside
  the map, the reset of the danger grid sets exactly the tiles satisfying
  \<^verbatim>\<open>should_not_walk\<close> to 0 and every other tile to the 5000 ms sentinel, and the first
  \<^verbatim>\<open>get_danger_value\<close> after the invalidation returns: without live bombs the reset value
  of the tile; for a tile whose kind is Wall or Block, or that carries a flame or lava, a
  value that is at most 0, and exactly 0 when every live bomb carries a detonator or has
  a time until explosion that is not negative.
\<close>

theorem danger_value_of_unwalkable_tile:
  assumes "grid_wf m" "bombs_within_map m" "\<not> danger_map_is_up_to_date m"
    and "tile_is_withing_map p"
  shows "update_danger_entry m ! nat (snd p) ! nat (fst p) =
           (if should_not_walk (tiles m ! nat (snd p) ! nat (fst p)) then 0 else SAFE_DANGER_VALUE)
         \<and> (\<exists>m1 v. get_danger_value m p = Some (m1, v)
              \<and> (bombs m = [] \<longrightarrow>
                    v = (if should_not_walk (tiles m ! nat (snd p) ! nat (fst p)) then 0
                         else SAFE_DANGER_VALUE))
              \<and> (should_not_walk (tiles m ! nat (snd p) ! nat (fst p)) \<longrightarrow>
                    v \<le> 0
                    \<and> ((\<forall>b \<in> set (bombs m). has_detonator (bomb_of m b)
                                              \<or> 0 \<le> time_until_explosion (bomb_of m b))
                        \<longrightarrow> v = 0)))"
proof -
  let ?r = "nat (snd p)" and ?c = "nat (fst p)"
  let ?snw = "should_not_walk (tiles m ! ?r ! ?c)"
  let ?init = "if ?snw then 0 else SAFE_DANGER_VALUE"
  let ?nonneg = "\<forall>b \<in> set (bombs m). has_detonator (bomb_of m b)
                                     \<or> 0 \<le> time_until_explosion (bomb_of m b)"
  let ?P = "\<lambda>x. (bombs m = [] \<longrightarrow> x = ?init) \<and> (?snw \<longrightarrow> x \<le> 0 \<and> (?nonneg \<longrightarrow> x = 0))"
  from assms(4) have b: "0 \<le> fst p" "fst p \<le> 14" "0 \<le> snd p" "snd p \<le> 10"
    by (simp_all add: tile_is_withing_map_iff)
  then have rc: "?r < 11" "?c < 15" by simp_all
  have reset: "update_danger_entry m ! ?r ! ?c = ?init"
    by (rule update_danger_entry_cell [OF assms(1) rc])
  have "\<exists>dm'. update_danger_map m = Some (m\<lparr>danger_map := dm'\<rparr>)
              \<and> danger_grid_wf dm' \<and> ?P (dm' ! ?r ! ?c)"
  proof (rule update_danger_map_inv [where P = ?P, OF assms(1) assms(2) rc])
    show "?P ?init" by simp
  next
    fix b x
    assume "b \<in> set (bombs m)" and "?P x"
    then show "?P (min x (if has_detonator (bomb_of m b) then 100
                          else time_until_explosion (bomb_of m b)))"
      by (auto simp: min_def)
  qed
  then obtain dm' where dm': "update_danger_map m = Some (m\<lparr>danger_map := dm'\<rparr>)"
    "danger_grid_wf dm'" "?P (dm' ! ?r ! ?c)" by blast
  from dm'(2) b have r: "py_index dm' (snd p) = Some ?r"
    by (simp add: py_index_def danger_grid_wf_def)
  from dm'(2) rc have "length (dm' ! ?r) = 15" by (simp add: danger_grid_wf_def)
  with b have c: "py_index (dm' ! ?r) (fst p) = Some ?c"
    by (simp add: py_index_def)
  have "get_danger_value m p =
          Some (m\<lparr>danger_map := dm', danger_map_is_up_to_date := True\<rparr>, dm' ! ?r ! ?c)"
    using assms(3) assms(4) by (simp add: get_danger_value_def dm'(1) r c)
  with dm'(3) reset show ?thesis by blast
qed

theorem danger_value_of_unwalkable_tile_witness:
  "grid_wf example_map \<and> bombs_within_map example_map
   \<and> \<not> danger_map_is_up_to_date example_map \<and> tile_is_withing_map (3, 5)
   \<and> kind (tiles example_map ! 5 ! 3) = TILE_BLOCK
   \<and> should_not_walk (tiles example_map ! 5 ! 3)
   \<and> (\<exists>m1. get_danger_value example_map (3, 5) = Some (m1, 0))"
proof -
  have flag: "\<not> danger_map_is_up_to_date example_map"
    by (simp add: example_map_def)
  have within: "tile_is_withing_map (3, 5)"
    by (simp add: tile_is_withing_map_iff)
  have block: "kind (tiles example_map ! 5 ! 3) = TILE_BLOCK"
    and snw: "should_not_walk (tiles example_map ! 5 ! 3)"
    by (simp_all add: example_map_def example_tile_def MapTile_init_def should_not_walk_def)
  have nonneg: "\<forall>b \<in> set (bombs example_map). has_detonator (bomb_of example_map b)
                  \<or> 0 \<le> time_until_explosion (bomb_of example_map b)"
    by (simp add: example_map_def bomb_of_def example_bomb_def Bomb_init_def
        move_to_tile_center_def time_until_explosion_def BOMB_EXPLODES_IN_def)
  from danger_value_of_unwalkable_tile [OF example_map_wf example_map_bombs_within flag within]
    snw nonneg
  have "\<exists>m1. get_danger_value example_map (3, 5) = Some (m1, 0)"
    by auto
  with example_map_wf example_map_bombs_within flag within block snw show ?thesis
    by blast
qed

text \<open>
  Claim C10 as stated fails: a flying bomb is not exploded by its fuse, so its time until
  explosion becomes negative, and the danger value of the Wall tile it flies to is then
  negative, not 0.
\<close>

theorem danger_value_negative_counterexample:
  "grid_wf overdue_map \<and> tile_is_withing_map (7, 5)
   \<and> kind (tiles overdue_map ! 5 ! 7) = TILE_WALL
   \<and> should_not_walk (tiles overdue_map ! 5 ! 7)
   \<and> movement (bomb_of overdue_map 0) = BOMB_FLYING
   \<and> map_option snd (get_danger_value overdue_map (7, 5)) = Some (- 500)"
proof -
  have "tile_is_withing_map (7, 5)"
    by (simp add: tile_is_withing_map_iff)
  moreover have "kind (tiles overdue_map ! 5 ! 7) = TILE_WALL"
    "should_not_walk (tiles overdue_map ! 5 ! 7)"
    by (simp_all add: overdue_map_def example_map_def example_tile_def MapTile_init_def
        should_not_walk_def)
  moreover have "movement (bomb_of overdue_map 0) = BOMB_FLYING"
    by (simp add: overdue_map_def bomb_of_def)
  ultimately show ?thesis
    using overdue_map_wf overdue_danger_value by blast
qed

section \<open>Explosions: the flame footprint\<close>

lemma lt4_cases: "d < (4::nat) \<Longrightarrow> d = 0 \<or> d = 1 \<or> d = 2 \<or> d = 3"
  by arith

lemma tile_towards_simps:
  "tile_towards origin 0 k = (fst origin, snd origin - int k)"
  "tile_towards origin (Suc 0) k = (fst origin + int k, snd origin)"
  "tile_towards origin 2 k = (fst origin, snd origin + int k)"
  "tile_towards origin 3 k = (fst origin - int k, snd origin)"
  by (simp_all add: tile_towards_def tile_increment_def Position_add_def Position_mul_num_def
      numeral_2_eq_2 numeral_3_eq_3)

lemma axis_at_simps:
  "axis_at origin 0 k = snd origin - 1 - int k"
  "axis_at origin (Suc 0) k = fst origin + 1 + int k"
  "axis_at origin 2 k = snd origin + 1 + int k"
  "axis_at origin 3 k = fst origin - 1 - int k"
  by (simp_all add: axis_at_def increment_def numeral_2_eq_2 numeral_3_eq_3)

lemma table_simps:
  "increment ! 0 = -1" "increment ! Suc 0 = 1" "increment ! 2 = 1" "increment ! 3 = -1"
  "map_limit ! 0 = 0" "map_limit ! Suc 0 = 14" "map_limit ! 2 = 10" "map_limit ! 3 = 0"
  "goes_horizontally ! 0 = False" "goes_horizontally ! Suc 0 = True"
  "goes_horizontally ! 2 = False" "goes_horizontally ! 3 = True"
  by (simp_all add: increment_def map_limit_def goes_horizontally_def MAP_SIZE_def
      numeral_2_eq_2 numeral_3_eq_3)

lemma ray_cell_eq:
  assumes "d < 4"
  shows "(if goes_horizontally ! d then (axis_at origin d n, snd origin)
          else (fst origin, axis_at origin d n)) = tile_towards origin d (Suc n)"
  using lt4_cases [OF assms]
  by (auto simp: tile_towards_simps axis_at_simps table_simps)

lemma axis_inside_eq:
  assumes "d < 4" "tile_is_withing_map origin"
  shows "((increment ! d = -1 \<and> axis_at origin d n \<ge> map_limit ! d)
          \<or> (increment ! d = 1 \<and> axis_at origin d n \<le> map_limit ! d))
         \<longleftrightarrow> tile_is_withing_map (tile_towards origin d (Suc n))"
  using lt4_cases [OF assms(1)] assms(2)
  by (auto simp: tile_towards_simps axis_at_simps table_simps tile_is_withing_map_iff)

lemma axis_at_Suc:
  assumes "d < 4"
  shows "axis_at origin d n + increment ! d = axis_at origin d (Suc n)"
  using lt4_cases [OF assms]
  by (auto simp: axis_at_simps table_simps)

lemma tile_towards_inj:
  assumes "d < 4" "d' < 4" "1 \<le> k" "1 \<le> k'"
  shows "tile_towards origin d k = tile_towards origin d' k' \<longleftrightarrow> d = d' \<and> k = k'"
    and "tile_towards origin d k \<noteq> origin"
  using lt4_cases [OF assms(1)] lt4_cases [OF assms(2)] assms(3,4)
  by (auto simp: tile_towards_simps prod_eq_iff)

lemma ball_from_1_Suc:
  "(\<forall>j \<in> {1..<Suc n}. P j) \<longleftrightarrow> (\<forall>j < n. P (Suc j))"
proof
  assume a: "\<forall>j \<in> {1..<Suc n}. P j"
  show "\<forall>j < n. P (Suc j)"
  proof (intro allI impI)
    fix j assume "j < n"
    then have "Suc j \<in> {1..<Suc n}" by simp
    with a show "P (Suc j)" by blast
  qed
next
  assume a: "\<forall>j < n. P (Suc j)"
  show "\<forall>j \<in> {1..<Suc n}. P j"
  proof
    fix j assume "j \<in> {1..<Suc n}"
    then obtain j' where "j = Suc j'" "j' < n" by (cases j) auto
    with a show "P j" by simp
  qed
qed

lemma flame_reaches_Suc:
  "flame_reaches m origin d (Suc n) \<longleftrightarrow>
     ray_open m origin d n \<and> tile_is_withing_map (tile_towards origin d (Suc n))
     \<and> kind_at m (tile_towards origin d (Suc n)) \<noteq> TILE_WALL"
  unfolding flame_reaches_def ray_open_def ball_from_1_Suc by blast

lemma ray_open_Suc:
  "ray_open m origin d (Suc n) \<longleftrightarrow>
     ray_open m origin d n \<and> tile_is_withing_map (tile_towards origin d (Suc n))
     \<and> kind_at m (tile_towards origin d (Suc n)) = TILE_FLOOR"
  by (auto simp: ray_open_def less_Suc_eq)

lemma flame_hit_step:
  assumes "d < 4"
  shows "flame_hit m0 origin (ks(d := Suc (ks d))) q \<longleftrightarrow>
           flame_hit m0 origin ks q
           \<or> (q = tile_towards origin d (Suc (ks d)) \<and> flame_reaches m0 origin d (Suc (ks d)))"
proof
  assume "flame_hit m0 origin (ks(d := Suc (ks d))) q"
  then consider "q = origin"
    | d' k where "d' < 4" "1 \<le> k" "k \<le> (ks(d := Suc (ks d))) d'"
        "q = tile_towards origin d' k" "flame_reaches m0 origin d' k"
    unfolding flame_hit_def by blast
  then show "flame_hit m0 origin ks q
           \<or> (q = tile_towards origin d (Suc (ks d)) \<and> flame_reaches m0 origin d (Suc (ks d)))"
  proof cases
    case 1
    then show ?thesis by (simp add: flame_hit_def)
  next
    case 2
    show ?thesis
    proof (cases "d' = d \<and> k = Suc (ks d)")
      case True
      with 2 show ?thesis by simp
    next
      case False
      with 2 have "k \<le> ks d'" by (auto split: if_splits)
      with 2 show ?thesis unfolding flame_hit_def by blast
    qed
  qed
next
  assume "flame_hit m0 origin ks q
           \<or> (q = tile_towards origin d (Suc (ks d)) \<and> flame_reaches m0 origin d (Suc (ks d)))"
  then show "flame_hit m0 origin (ks(d := Suc (ks d))) q"
  proof
    assume "flame_hit m0 origin ks q"
    then consider "q = origin"
      | d' k where "d' < 4" "1 \<le> k" "k \<le> ks d'"
          "q = tile_towards origin d' k" "flame_reaches m0 origin d' k"
      unfolding flame_hit_def by blast
    then show ?thesis
    proof cases
      case 1
      then show ?thesis by (simp add: flame_hit_def)
    next
      case 2
      then have "k \<le> (ks(d := Suc (ks d))) d'" by auto
      with 2 show ?thesis unfolding flame_hit_def by blast
    qed
  next
    assume a: "q = tile_towards origin d (Suc (ks d)) \<and> flame_reaches m0 origin d (Suc (ks d))"
    have "1 \<le> Suc (ks d)" "Suc (ks d) \<le> (ks(d := Suc (ks d))) d" by simp_all
    with a assms show ?thesis unfolding flame_hit_def by blast
  qed
qed

lemma flame_hit_fresh:
  assumes "d < 4"
  shows "\<not> flame_hit m0 origin ks (tile_towards origin d (Suc (ks d)))"
proof
  assume "flame_hit m0 origin ks (tile_towards origin d (Suc (ks d)))"
  then consider "tile_towards origin d (Suc (ks d)) = origin"
    | d' k where "d' < 4" "1 \<le> k" "k \<le> ks d'"
        "tile_towards origin d (Suc (ks d)) = tile_towards origin d' k"
    unfolding flame_hit_def by blast
  then show False
  proof cases
    case 1
    with tile_towards_inj(2) [OF assms assms, of "Suc (ks d)" 1 origin] show False by simp
  next
    case 2
    with tile_towards_inj(1) [OF assms 2(1), of "Suc (ks d)" k origin]
    show False by auto
  qed
qed


lemma map_update_same:
  assumes "f y = f (xs ! i)"
  shows "map f (xs[i := y]) = map f xs"
proof (cases "i < length xs")
  case True
  have "map f (xs[i := y]) = (map f xs)[i := f y]" by (rule map_update)
  also have "\<dots> = (map f xs)[i := (map f xs) ! i]" using True assms by simp
  also have "\<dots> = map f xs" by (rule list_update_id)
  finally show ?thesis .
next
  case False
  then show ?thesis by (simp add: list_update_beyond)
qed

lemma update_tile_strip:
  assumes "\<And>t. (f t)\<lparr>flames := []\<rparr> = t\<lparr>flames := []\<rparr>"
  shows "strip_flames (tiles (update_tile rc f m)) = strip_flames (tiles m)"
proof -
  let ?s = "\<lambda>t::MapTile. t\<lparr>flames := []\<rparr>"
  have row: "map ?s ((tiles m ! fst rc)[snd rc := f (tiles m ! fst rc ! snd rc)])
             = map ?s (tiles m ! fst rc)"
    by (rule map_update_same) (rule assms)
  show ?thesis
    unfolding strip_flames_def update_tile_def
    by (simp add: map_update_same [where f = "map ?s"] row)
qed

lemma update_tile_other:
  "(update_tile rc f m)\<lparr>tiles := []\<rparr> = m\<lparr>tiles := []\<rparr>"
  by (simp add: update_tile_def)

lemma update_tile_nth:
  assumes "r' < length (tiles m)" "c' < length (tiles m ! r')"
  shows "tiles (update_tile (r, c) f m) ! r' ! c' =
           (if r' = r \<and> c' = c then f (tiles m ! r ! c) else tiles m ! r' ! c')"
  using assms by (cases "r' = r") (auto simp: update_tile_def nth_list_update)

lemma strip_flames_shape:
  assumes "strip_flames ts = strip_flames ts0"
  shows "length ts = length ts0"
    and "r < length ts0 \<Longrightarrow> length (ts ! r) = length (ts0 ! r)"
    and "r < length ts0 \<Longrightarrow> c < length (ts0 ! r) \<Longrightarrow>
           (ts ! r ! c)\<lparr>flames := []\<rparr> = (ts0 ! r ! c)\<lparr>flames := []\<rparr>"
proof -
  let ?s = "\<lambda>t::MapTile. t\<lparr>flames := []\<rparr>"
  from assms have eq: "map (map ?s) ts = map (map ?s) ts0"
    by (simp add: strip_flames_def)
  then show len: "length ts = length ts0" by (rule map_eq_imp_length_eq)
  {
    assume r: "r < length ts0"
    from eq have "map (map ?s) ts ! r = map (map ?s) ts0 ! r" by simp
    with r len have row: "map ?s (ts ! r) = map ?s (ts0 ! r)" by simp
    then show rl: "length (ts ! r) = length (ts0 ! r)" by (rule map_eq_imp_length_eq)
    assume c: "c < length (ts0 ! r)"
    from row have "map ?s (ts ! r) ! c = map ?s (ts0 ! r) ! c" by simp
    with c rl show "(ts ! r ! c)\<lparr>flames := []\<rparr> = (ts0 ! r ! c)\<lparr>flames := []\<rparr>" by simp
  }
qed

lemma strip_flames_kind:
  assumes "strip_flames ts = strip_flames ts0" "r < length ts0" "c < length (ts0 ! r)"
  shows "kind (ts ! r ! c) = kind (ts0 ! r ! c)"
    and "coordinates (ts ! r ! c) = coordinates (ts0 ! r ! c)"
    and "to_be_destroyed (ts ! r ! c) = to_be_destroyed (ts0 ! r ! c)"
    and "item (ts ! r ! c) = item (ts0 ! r ! c)"
    and "special_object (ts ! r ! c) = special_object (ts0 ! r ! c)"
proof -
  have e: "(ts ! r ! c)\<lparr>flames := []\<rparr> = (ts0 ! r ! c)\<lparr>flames := []\<rparr>"
    by (rule strip_flames_shape(3) [OF assms])
  have "kind ((ts ! r ! c)\<lparr>flames := []\<rparr>) = kind ((ts0 ! r ! c)\<lparr>flames := []\<rparr>)"
    by (simp only: e)
  then show "kind (ts ! r ! c) = kind (ts0 ! r ! c)" by simp
  have "coordinates ((ts ! r ! c)\<lparr>flames := []\<rparr>) = coordinates ((ts0 ! r ! c)\<lparr>flames := []\<rparr>)"
    by (simp only: e)
  then show "coordinates (ts ! r ! c) = coordinates (ts0 ! r ! c)" by simp
  have "to_be_destroyed ((ts ! r ! c)\<lparr>flames := []\<rparr>)
        = to_be_destroyed ((ts0 ! r ! c)\<lparr>flames := []\<rparr>)"
    by (simp only: e)
  then show "to_be_destroyed (ts ! r ! c) = to_be_destroyed (ts0 ! r ! c)" by simp
  have "item ((ts ! r ! c)\<lparr>flames := []\<rparr>) = item ((ts0 ! r ! c)\<lparr>flames := []\<rparr>)"
    by (simp only: e)
  then show "item (ts ! r ! c) = item (ts0 ! r ! c)" by simp
  have "special_object ((ts ! r ! c)\<lparr>flames := []\<rparr>)
        = special_object ((ts0 ! r ! c)\<lparr>flames := []\<rparr>)"
    by (simp only: e)
  then show "special_object (ts ! r ! c) = special_object (ts0 ! r ! c)" by simp
qed

lemma grid_wf_strip:
  assumes "strip_flames (tiles m) = strip_flames (tiles m0)" "grid_wf m0"
  shows "grid_wf m"
proof -
  note sh = strip_flames_shape [OF assms(1)] strip_flames_kind(2) [OF assms(1)]
  from assms(2) have len0: "length (tiles m0) = 11"
    and row0: "\<And>r. r < 11 \<Longrightarrow> length (tiles m0 ! r) = 15"
    and co0: "\<And>r c. r < 11 \<Longrightarrow> c < 15 \<Longrightarrow> coordinates (tiles m0 ! r ! c) = (int c, int r)"
    by (auto simp: grid_wf_def MAP_SIZE_def list_all_iff)
  have len: "length (tiles m) = 11" using sh(1) len0 by simp
  have row: "length (tiles m ! r) = 15" if "r < 11" for r
    using sh(2) [of r] len0 row0 that by simp
  have co: "coordinates (tiles m ! r ! c) = (int c, int r)" if "r < 11" "c < 15" for r c
    using sh(4) [of r c] len0 row0 co0 that by simp
  have "line \<in> set (tiles m) \<Longrightarrow> length line = 15" for line
    using len row by (auto simp: in_set_conv_nth)
  then show ?thesis
    using len row co by (auto simp: grid_wf_def MAP_SIZE_def list_all_iff)
qed


lemma flame_loop_inv_step:
  assumes inv: "flame_loop_inv m0 origin owner ks (axis_position, flame_stop, previous_flame, m)"
    and d: "d < 4"
    and prev: "length previous_flame' = 4"
    and other: "m'\<lparr>tiles := []\<rparr> = m\<lparr>tiles := []\<rparr>"
    and strip: "strip_flames (tiles m') = strip_flames (tiles m)"
    and stop: "stop_d \<longleftrightarrow> \<not> ray_open m0 origin d (Suc (ks d))"
    and keys: "\<And>r c. r < 11 \<Longrightarrow> c < 15 \<Longrightarrow>
        map flame_key (flames (tiles m' ! r ! c)) =
          map flame_key (flames (tiles m ! r ! c))
          @ (if (int c, int r) = tile_towards origin d (Suc (ks d))
                \<and> flame_reaches m0 origin d (Suc (ks d))
             then [(owner, 1000)] else [])"
  shows "flame_loop_inv m0 origin owner (ks(d := Suc (ks d)))
           (axis_position[d := axis_position ! d + increment ! d], flame_stop[d := stop_d],
            previous_flame', m')"
proof -
  from inv have len: "length axis_position = 4" "length flame_stop = 4"
    and other0: "m\<lparr>tiles := []\<rparr>
                 = m0\<lparr>tiles := [], sound_events := sound_events m0 @ [SOUND_EVENT_EXPLOSION]\<rparr>"
    and strip0: "strip_flames (tiles m) = strip_flames (tiles m0)"
    and ax: "\<And>d'. d' < 4 \<Longrightarrow> axis_position ! d' = axis_at origin d' (ks d')"
    and st: "\<And>d'. d' < 4 \<Longrightarrow> flame_stop ! d' \<longleftrightarrow> \<not> ray_open m0 origin d' (ks d')"
    and keys0: "\<And>r c. r < 11 \<Longrightarrow> c < 15 \<Longrightarrow>
        map flame_key (flames (tiles m ! r ! c)) =
          map flame_key (flames (tiles m0 ! r ! c))
          @ (if flame_hit m0 origin ks (int c, int r) then [(owner, 1000)] else [])"
    by (simp_all add: flame_loop_inv_def)
  let ?ks = "ks(d := Suc (ks d))"
  have ax': "(axis_position[d := axis_position ! d + increment ! d]) ! d' = axis_at origin d' (?ks d')"
    if "d' < 4" for d'
    using that d len ax [of d'] ax [of d] axis_at_Suc [OF d, of origin "ks d"]
    by (cases "d' = d") simp_all
  have st': "(flame_stop[d := stop_d]) ! d' \<longleftrightarrow> \<not> ray_open m0 origin d' (?ks d')"
    if "d' < 4" for d'
    using that d len st [of d'] stop
    by (cases "d' = d") simp_all
  have keys': "map flame_key (flames (tiles m' ! r ! c)) =
          map flame_key (flames (tiles m0 ! r ! c))
          @ (if flame_hit m0 origin ?ks (int c, int r) then [(owner, 1000)] else [])"
    if "r < 11" "c < 15" for r c
  proof (cases "(int c, int r) = tile_towards origin d (Suc (ks d))
                \<and> flame_reaches m0 origin d (Suc (ks d))")
    case True
    then have "\<not> flame_hit m0 origin ks (int c, int r)"
      using flame_hit_fresh [OF d, of m0 origin ks] by simp
    moreover from True have "flame_hit m0 origin ?ks (int c, int r)"
      using flame_hit_step [OF d, of m0 origin ks "(int c, int r)"] by simp
    ultimately show ?thesis
      using keys [OF that] keys0 [OF that] True by simp
  next
    case False
    then have "flame_hit m0 origin ?ks (int c, int r) \<longleftrightarrow> flame_hit m0 origin ks (int c, int r)"
      using flame_hit_step [OF d, of m0 origin ks "(int c, int r)"] by blast
    then show ?thesis
      using keys [OF that] keys0 [OF that] False by simp
  qed
  show ?thesis
    unfolding flame_loop_inv_def
    using len prev other other0 strip strip0 ax' st' keys' by simp
qed


lemma grid_wf_bounds:
  assumes "tile_is_withing_map q"
  shows "nat (snd q) < 11" "nat (fst q) < 15" "int (nat (fst q)) = fst q" "int (nat (snd q)) = snd q"
  using assms by (auto simp: tile_is_withing_map_iff)

lemma cell_eq_iff:
  assumes "tile_is_withing_map q"
  shows "(int c, int r) = q \<longleftrightarrow> r = nat (snd q) \<and> c = nat (fst q)"
  using assms by (auto simp: tile_is_withing_map_iff prod_eq_iff)

lemma flame_direction_step_eq:
  assumes "d < 4" "tile_is_withing_map origin" "axis_position ! d = axis_at origin d n"
  shows "flame_direction_step origin owner d (axis_position, flame_stop, previous_flame, m) =
     (case
        (if flame_stop ! d then
           (case previous_flame ! d of
              None \<Rightarrow> Some (flame_stop, previous_flame, m)
            | Some (rc, k) \<Rightarrow>
                Some (flame_stop, previous_flame[d := None],
                      update_tile rc
                        (\<lambda>t. t\<lparr>flames := (flames t)[k := (flames t ! k)
                                   \<lparr>flame_direction := direction_name ! d\<rparr>]\<rparr>) m))
         else if tile_is_withing_map (tile_towards origin d (Suc n)) then
           (case tile_ref (tiles m) (tile_towards origin d (Suc n)) of
              None \<Rightarrow> None
            | Some rc \<Rightarrow>
                if kind (tile_at m rc) = TILE_WALL
                then Some (flame_stop[d := True], previous_flame, m)
                else Some ((if kind (tile_at m rc) = TILE_BLOCK then flame_stop[d := True]
                            else flame_stop),
                           previous_flame[d := Some (rc, length (flames (tile_at m rc)))],
                           update_tile rc
                             (\<lambda>t. t\<lparr>flames := flames t @
                                 [Flame_init owner
                                    (if goes_horizontally ! d then ''horizontal''
                                     else ''vertical'')]\<rparr>) m))
         else Some (flame_stop[d := True], previous_flame, m)) of
        None \<Rightarrow> None
      | Some (flame_stop', previous_flame', m') \<Rightarrow>
          Some (axis_position[d := axis_position ! d + increment ! d],
                flame_stop', previous_flame', m'))"
  unfolding flame_direction_step_def prod.case assms(3) ray_cell_eq [OF assms(1)]
    axis_inside_eq [OF assms(1) assms(2)]
  by (rule refl)

lemma flame_direction_step_inv:
  assumes wf: "grid_wf m0" and origin: "tile_is_withing_map origin" and d: "d < 4"
    and inv: "flame_loop_inv m0 origin owner ks s"
  shows "\<exists>s'. flame_direction_step origin owner d s = Some s'
              \<and> flame_loop_inv m0 origin owner (ks(d := Suc (ks d))) s'"
proof -
  obtain axis_position flame_stop previous_flame m
    where s: "s = (axis_position, flame_stop, previous_flame, m)"
    by (cases s) auto
  note inv' = inv [unfolded s]
  from inv' have len: "length axis_position = 4" "length flame_stop = 4" "length previous_flame = 4"
    and strip0: "strip_flames (tiles m) = strip_flames (tiles m0)"
    and ax: "axis_position ! d = axis_at origin d (ks d)"
    and st: "flame_stop ! d \<longleftrightarrow> \<not> ray_open m0 origin d (ks d)"
    using d by (simp_all add: flame_loop_inv_def)
  let ?q = "tile_towards origin d (Suc (ks d))"
  let ?ks = "ks(d := Suc (ks d))"
  have wfm: "grid_wf m" by (rule grid_wf_strip [OF strip0 wf])
  note step = flame_direction_step_eq [OF d origin ax, of owner flame_stop previous_flame m]
  show ?thesis
  proof (cases "flame_stop ! d")
    case True
    with st have closed: "\<not> ray_open m0 origin d (ks d)" by simp
    then have nopen: "\<not> ray_open m0 origin d (Suc (ks d))"
      and nreach: "\<not> flame_reaches m0 origin d (Suc (ks d))"
      by (simp_all add: ray_open_Suc flame_reaches_Suc)
    show ?thesis
    proof (cases "previous_flame ! d")
      case None
      have "flame_loop_inv m0 origin owner ?ks
              (axis_position[d := axis_position ! d + increment ! d],
               flame_stop[d := flame_stop ! d], previous_flame, m)"
        by (rule flame_loop_inv_step [OF inv' d len(3)]) (use True nopen nreach in simp_all)
      then have "flame_loop_inv m0 origin owner ?ks
              (axis_position[d := axis_position ! d + increment ! d],
               flame_stop, previous_flame, m)"
        unfolding list_update_id .
      then show ?thesis
        using True None by (simp add: step s)
    next
      case (Some ref)
      obtain rc k where ref: "ref = (rc, k)" by (cases ref)
      let ?f = "\<lambda>t. t\<lparr>flames := (flames t)[k := (flames t ! k)
                                      \<lparr>flame_direction := direction_name ! d\<rparr>]\<rparr>"
      let ?m = "update_tile rc ?f m"
      have keyf: "map flame_key (flames (?f t)) = map flame_key (flames t)" for t
        by (simp add: map_update_same flame_key_def)
      have keys: "map flame_key (flames (tiles ?m ! r ! c)) = map flame_key (flames (tiles m ! r ! c))"
        if "r < 11" "c < 15" for r c
      proof -
        from that grid_wf_lengths [OF wfm]
        have "r < length (tiles m)" "c < length (tiles m ! r)" by simp_all
        from update_tile_nth [OF this, of "fst rc" "snd rc" ?f] keyf
        show ?thesis by (cases "r = fst rc \<and> c = snd rc") simp_all
      qed
      have "flame_loop_inv m0 origin owner ?ks
              (axis_position[d := axis_position ! d + increment ! d],
               flame_stop[d := flame_stop ! d], previous_flame[d := None], ?m)"
      proof (rule flame_loop_inv_step [OF inv' d])
        show "length (previous_flame[d := None]) = 4" using len by simp
        show "?m\<lparr>tiles := []\<rparr> = m\<lparr>tiles := []\<rparr>" by (rule update_tile_other)
        show "strip_flames (tiles ?m) = strip_flames (tiles m)"
          by (rule update_tile_strip) simp
        show "flame_stop ! d \<longleftrightarrow> \<not> ray_open m0 origin d (Suc (ks d))"
          using True nopen by simp
      next
        fix r c :: nat
        assume "r < 11" "c < 15"
        then show "map flame_key (flames (tiles ?m ! r ! c)) =
          map flame_key (flames (tiles m ! r ! c))
          @ (if (int c, int r) = ?q \<and> flame_reaches m0 origin d (Suc (ks d))
             then [(owner, 1000)] else [])"
          using keys nreach by simp
      qed
      then have "flame_loop_inv m0 origin owner ?ks
              (axis_position[d := axis_position ! d + increment ! d],
               flame_stop, previous_flame[d := None], ?m)"
        unfolding list_update_id .
      then show ?thesis
        using True Some ref by (simp add: step s)
    qed
  next
    case False
    with st have opened: "ray_open m0 origin d (ks d)" by simp
    show ?thesis
    proof (cases "tile_is_withing_map ?q")
      case outside: False
      then have nopen: "\<not> ray_open m0 origin d (Suc (ks d))"
        and nreach: "\<not> flame_reaches m0 origin d (Suc (ks d))"
        by (simp_all add: ray_open_Suc flame_reaches_Suc)
      have "flame_loop_inv m0 origin owner ?ks
              (axis_position[d := axis_position ! d + increment ! d],
               flame_stop[d := True], previous_flame, m)"
        by (rule flame_loop_inv_step [OF inv' d len(3)]) (use nopen nreach in simp_all)
      then show ?thesis
        using False outside by (simp add: step s)
    next
      case within: True
      note b = grid_wf_bounds [OF within]
      let ?rc = "(nat (snd ?q), nat (fst ?q))"
      have ref: "tile_ref (tiles m) ?q = Some ?rc"
        by (rule grid_wf_tile_ref [OF wfm within])
      from grid_wf_lengths [OF wf] b
      have in0: "nat (snd ?q) < length (tiles m0)" "nat (fst ?q) < length (tiles m0 ! nat (snd ?q))"
        by simp_all
      have kind: "kind (tile_at m ?rc) = kind_at m0 ?q"
        using strip_flames_kind(1) [OF strip0 in0] by (simp add: tile_at_def kind_at_def)
      show ?thesis
      proof (cases "kind_at m0 ?q = TILE_WALL")
        case wall: True
        then have nopen: "\<not> ray_open m0 origin d (Suc (ks d))"
          and nreach: "\<not> flame_reaches m0 origin d (Suc (ks d))"
          by (simp_all add: ray_open_Suc flame_reaches_Suc)
        have "flame_loop_inv m0 origin owner ?ks
                (axis_position[d := axis_position ! d + increment ! d],
                 flame_stop[d := True], previous_flame, m)"
          by (rule flame_loop_inv_step [OF inv' d len(3)]) (use nopen nreach in simp_all)
        then show ?thesis
          using False within wall kind
          by (simp add: step s ref)
      next
        case nowall: False
        let ?fl = "Flame_init owner (if goes_horizontally ! d then ''horizontal'' else ''vertical'')"
        let ?f = "\<lambda>t. t\<lparr>flames := flames t @ [?fl]\<rparr>"
        let ?m = "update_tile ?rc ?f m"
        let ?prev = "previous_flame[d := Some (?rc, length (flames (tile_at m ?rc)))]"
        let ?stop = "kind_at m0 ?q = TILE_BLOCK"
        have reach: "flame_reaches m0 origin d (Suc (ks d))"
          using opened within nowall by (simp add: flame_reaches_Suc)
        have sopen: "?stop \<longleftrightarrow> \<not> ray_open m0 origin d (Suc (ks d))"
          using opened within nowall by (cases "kind_at m0 ?q") (simp_all add: ray_open_Suc)
        have keys: "map flame_key (flames (tiles ?m ! r ! c)) =
            map flame_key (flames (tiles m ! r ! c))
            @ (if (int c, int r) = ?q \<and> flame_reaches m0 origin d (Suc (ks d))
               then [(owner, 1000)] else [])"
          if "r < 11" "c < 15" for r c
        proof -
          from that grid_wf_lengths [OF wfm]
          have "r < length (tiles m)" "c < length (tiles m ! r)" by simp_all
          from update_tile_nth [OF this, of "nat (snd ?q)" "nat (fst ?q)" ?f]
          show ?thesis
            using reach cell_eq_iff [OF within, of c r]
            by (cases "r = nat (snd ?q) \<and> c = nat (fst ?q)")
              (simp_all add: flame_key_def Flame_init_def)
        qed
        have "flame_loop_inv m0 origin owner ?ks
                (axis_position[d := axis_position ! d + increment ! d],
                 flame_stop[d := ?stop], ?prev, ?m)"
        proof (rule flame_loop_inv_step [OF inv' d])
          show "length ?prev = 4" using len by simp
          show "?m\<lparr>tiles := []\<rparr> = m\<lparr>tiles := []\<rparr>" by (rule update_tile_other)
          show "strip_flames (tiles ?m) = strip_flames (tiles m)"
            by (rule update_tile_strip) simp
          show "?stop \<longleftrightarrow> \<not> ray_open m0 origin d (Suc (ks d))" by (rule sopen)
        qed (rule keys)
        moreover have "flame_stop[d := False] = flame_stop"
          using False by (metis list_update_id)
        ultimately show ?thesis
          using False within nowall kind
          by (cases "kind_at m0 ?q = TILE_BLOCK")
            (simp_all add: step s ref)
      qed
    qed
  qed
qed


lemma flame_hit_cong:
  assumes "\<And>d. d < 4 \<Longrightarrow> ks d = ks' d"
  shows "flame_hit m0 origin ks q = flame_hit m0 origin ks' q"
  unfolding flame_hit_def using assms by auto

lemma flame_loop_inv_cong:
  assumes "\<And>d. d < 4 \<Longrightarrow> ks d = ks' d" "flame_loop_inv m0 origin owner ks s"
  shows "flame_loop_inv m0 origin owner ks' s"
proof -
  have "flame_hit m0 origin ks q = flame_hit m0 origin ks' q" for q
    by (rule flame_hit_cong) (rule assms(1))
  with assms show ?thesis
    unfolding flame_loop_inv_def by (auto split: prod.splits)
qed

lemma fold_option_append:
  "fold_option f (xs @ ys) s =
     (case fold_option f xs s of None \<Rightarrow> None | Some s' \<Rightarrow> fold_option f ys s')"
  by (induction xs arbitrary: s) (auto split: option.splits)

lemma fold_option_upt:
  assumes "\<And>i s. i < n \<Longrightarrow> I i s \<Longrightarrow> \<exists>s'. f i s = Some s' \<and> I (Suc i) s'"
    and "I 0 s"
  shows "\<exists>s'. fold_option f [0..<n] s = Some s' \<and> I n s'"
  using assms
proof (induction n)
  case 0
  then show ?case by simp
next
  case (Suc n)
  have "\<exists>s'. fold_option f [0..<n] s = Some s' \<and> I n s'"
    by (rule Suc.IH) (use Suc.prems in auto)
  then obtain s1 where s1: "fold_option f [0..<n] s = Some s1" "I n s1" by blast
  from Suc.prems(1) [of n s1] s1(2) obtain s2 where "f n s1 = Some s2" "I (Suc n) s2"
    by auto
  with s1 show ?case by (simp add: fold_option_append)
qed

lemma flame_iteration_inv:
  assumes wf: "grid_wf m0" and origin: "tile_is_withing_map origin" and i: "int i < len"
    and inv: "flame_loop_inv m0 origin owner (\<lambda>_. i) s"
  shows "\<exists>s'. flame_iteration origin owner len i s = Some s'
              \<and> flame_loop_inv m0 origin owner (\<lambda>_. Suc i) s'"
proof -
  let ?k0 = "\<lambda>_::nat. i"
  let ?k1 = "?k0(0 := Suc (?k0 0))"
  let ?k2 = "?k1(1 := Suc (?k1 1))"
  let ?k3 = "?k2(2 := Suc (?k2 2))"
  let ?k4 = "?k3(3 := Suc (?k3 3))"
  note step = flame_direction_step_inv [OF wf origin]
  from step [of 0 owner ?k0 s] inv obtain s1
    where s1: "flame_direction_step origin owner 0 s = Some s1"
      "flame_loop_inv m0 origin owner ?k1 s1" by auto
  from step [of 1 owner ?k1 s1] s1(2) obtain s2
    where s2: "flame_direction_step origin owner 1 s1 = Some s2"
      "flame_loop_inv m0 origin owner ?k2 s2" by auto
  from step [of 2 owner ?k2 s2] s2(2) obtain s3
    where s3: "flame_direction_step origin owner 2 s2 = Some s3"
      "flame_loop_inv m0 origin owner ?k3 s3" by auto
  from step [of 3 owner ?k3 s3] s3(2) obtain s4
    where s4: "flame_direction_step origin owner 3 s3 = Some s4"
      "flame_loop_inv m0 origin owner ?k4 s4" by auto
  have "flame_loop_inv m0 origin owner (\<lambda>_. Suc i) s4"
    by (rule flame_loop_inv_cong [OF _ s4(2)]) simp
  moreover have "flame_iteration origin owner len i s = Some s4"
    using i s1(1) s2(1) s3(1) s4(1)
    by (cases s) (simp add: flame_iteration_def)
  ultimately show ?thesis by blast
qed


lemma flame_direction_step_final:
  assumes wf: "grid_wf m1" and d: "d < 4" and inv: "flame_final_inv m1 s"
  shows "\<exists>s'. flame_direction_step origin owner d s = Some s' \<and> flame_final_inv m1 s'"
proof -
  obtain axis_position flame_stop previous_flame m
    where s: "s = (axis_position, flame_stop, previous_flame, m)"
    by (cases s) auto
  from inv d have stopped: "flame_stop ! d"
    and strip1: "strip_flames (tiles m) = strip_flames (tiles m1)"
    by (simp_all add: s flame_final_inv_def)
  have wfm: "grid_wf m" by (rule grid_wf_strip [OF strip1 wf])
  show ?thesis
  proof (cases "previous_flame ! d")
    case None
    then show ?thesis
      using stopped inv by (simp add: flame_direction_step_def s flame_final_inv_def)
  next
    case (Some ref)
    obtain rc k where ref: "ref = (rc, k)" by (cases ref)
    let ?f = "\<lambda>t. t\<lparr>flames := (flames t)[k := (flames t ! k)
                                    \<lparr>flame_direction := direction_name ! d\<rparr>]\<rparr>"
    let ?m = "update_tile rc ?f m"
    have keyf: "map flame_key (flames (?f t)) = map flame_key (flames t)" for t
      by (simp add: map_update_same flame_key_def)
    have keys: "map flame_key (flames (tiles ?m ! r ! c)) = map flame_key (flames (tiles m ! r ! c))"
      if "r < 11" "c < 15" for r c
    proof -
      from that grid_wf_lengths [OF wfm]
      have "r < length (tiles m)" "c < length (tiles m ! r)" by simp_all
      from update_tile_nth [OF this, of "fst rc" "snd rc" ?f] keyf
      show ?thesis by (cases "r = fst rc \<and> c = snd rc") simp_all
    qed
    have "strip_flames (tiles ?m) = strip_flames (tiles m)"
      by (rule update_tile_strip) simp
    moreover have "?m\<lparr>tiles := []\<rparr> = m\<lparr>tiles := []\<rparr>" by (rule update_tile_other)
    ultimately have "flame_final_inv m1
        (axis_position[d := axis_position ! d + increment ! d], flame_stop,
         previous_flame[d := None], ?m)"
      using inv keys by (simp add: s flame_final_inv_def)
    then show ?thesis
      using stopped Some ref by (simp add: flame_direction_step_def s)
  qed
qed

lemma flame_iteration_final:
  assumes wf: "grid_wf m" and i: "len \<le> int i"
  shows "\<exists>s'. flame_iteration origin owner len i (axis_position, flame_stop, previous_flame, m)
                = Some s'
              \<and> flame_final_inv m s'"
proof -
  have "flame_final_inv m (axis_position, [True, True, True, True], previous_flame, m)"
    by (auto simp: flame_final_inv_def dest!: lt4_cases)
  then have "\<exists>s'. fold_option (flame_direction_step origin owner) [0, 1, 2, 3]
                (axis_position, [True, True, True, True], previous_flame, m) = Some s'
              \<and> flame_final_inv m s'"
    by (intro fold_option_total [where I = "flame_final_inv m"]
        flame_direction_step_final [OF wf]) auto
  then show ?thesis
    using i by (simp add: flame_iteration_def)
qed


lemma flame_hit_footprint:
  "flame_hit m origin (\<lambda>_. nat len) q = flame_footprint m origin len q"
  unfolding flame_hit_def flame_footprint_def by auto

lemma flame_hit_0: "flame_hit m origin (\<lambda>_. 0) q \<longleftrightarrow> q = origin"
  unfolding flame_hit_def by auto

lemma flame_loop_total:
  assumes wf: "grid_wf m0" and origin: "tile_is_withing_map origin"
    and init: "flame_loop_inv m0 origin owner (\<lambda>_. 0) s0"
  shows "\<exists>axis_position flame_stop previous_flame m'.
           fold_option (flame_iteration origin owner len) [0..<nat (len + 1)] s0
             = Some (axis_position, flame_stop, previous_flame, m')
           \<and> m'\<lparr>tiles := []\<rparr>
               = m0\<lparr>tiles := [], sound_events := sound_events m0 @ [SOUND_EVENT_EXPLOSION]\<rparr>
           \<and> strip_flames (tiles m') = strip_flames (tiles m0)
           \<and> (\<forall>r < 11. \<forall>c < 15.
                 map flame_key (flames (tiles m' ! r ! c)) =
                   map flame_key (flames (tiles m0 ! r ! c))
                   @ (if flame_footprint m0 origin len (int c, int r) then [(owner, 1000)]
                      else []))"
proof (cases "len < 0")
  case True
  then have "nat (len + 1) = 0" "nat len = 0" by simp_all
  moreover obtain a st pv m' where s0: "s0 = (a, st, pv, m')" by (cases s0) auto
  ultimately show ?thesis
    using init flame_hit_footprint [of m0 origin len]
    by (simp add: flame_loop_inv_def)
next
  case False
  let ?n = "nat len"
  from False have upt: "[0..<nat (len + 1)] = [0..<?n] @ [?n]"
    by (simp add: nat_add_distrib)
  have "\<exists>s'. fold_option (flame_iteration origin owner len) [0..<?n] s0 = Some s'
             \<and> flame_loop_inv m0 origin owner (\<lambda>_. ?n) s'"
  proof (rule fold_option_upt [where I = "\<lambda>i. flame_loop_inv m0 origin owner (\<lambda>_. i)"])
    fix i s
    assume "i < ?n" and "flame_loop_inv m0 origin owner (\<lambda>_. i) s"
    then show "\<exists>s'. flame_iteration origin owner len i s = Some s'
                    \<and> flame_loop_inv m0 origin owner (\<lambda>_. Suc i) s'"
      by (intro flame_iteration_inv [OF wf origin]) simp_all
  qed (rule init)
  then obtain a st pv m1
    where s1: "fold_option (flame_iteration origin owner len) [0..<?n] s0 = Some (a, st, pv, m1)"
      and inv1: "flame_loop_inv m0 origin owner (\<lambda>_. ?n) (a, st, pv, m1)"
    by (metis prod_cases4)
  from inv1 have other1: "m1\<lparr>tiles := []\<rparr>
        = m0\<lparr>tiles := [], sound_events := sound_events m0 @ [SOUND_EVENT_EXPLOSION]\<rparr>"
    and strip1: "strip_flames (tiles m1) = strip_flames (tiles m0)"
    and keys1: "\<And>r c. r < 11 \<Longrightarrow> c < 15 \<Longrightarrow>
        map flame_key (flames (tiles m1 ! r ! c)) =
          map flame_key (flames (tiles m0 ! r ! c))
          @ (if flame_footprint m0 origin len (int c, int r) then [(owner, 1000)] else [])"
    by (simp_all add: flame_loop_inv_def flame_hit_footprint)
  have wf1: "grid_wf m1" by (rule grid_wf_strip [OF strip1 wf])
  from flame_iteration_final [OF wf1, of len ?n origin owner a st pv] False
  obtain s2 where s2: "flame_iteration origin owner len ?n (a, st, pv, m1) = Some s2"
    and inv2: "flame_final_inv m1 s2" by auto
  obtain a2 st2 pv2 m2 where s2eq: "s2 = (a2, st2, pv2, m2)" by (cases s2) auto
  have "fold_option (flame_iteration origin owner len) [0..<nat (len + 1)] s0
          = Some (a2, st2, pv2, m2)"
    by (simp add: upt fold_option_append s1 s2 s2eq)
  moreover from inv2 have "m2\<lparr>tiles := []\<rparr> = m1\<lparr>tiles := []\<rparr>"
    "strip_flames (tiles m2) = strip_flames (tiles m1)"
    "\<And>r c. r < 11 \<Longrightarrow> c < 15 \<Longrightarrow>
        map flame_key (flames (tiles m2 ! r ! c)) = map flame_key (flames (tiles m1 ! r ! c))"
    by (simp_all add: s2eq flame_final_inv_def)
  ultimately show ?thesis
    using other1 strip1 keys1 by auto
qed

lemma explodes_tiles:
  "explodes b (m\<lparr>tiles := ts\<rparr>) = (explodes b m)\<lparr>tiles := ts\<rparr>"
  by (simp add: explodes_def bomb_of_def)

lemma explodes_fields:
  "tiles (explodes b m) = tiles m" "bombs (explodes b m) = bombs m"
  "sound_events (explodes b m) = sound_events m"
  by (simp_all add: explodes_def)

lemma explodes_strip_eq:
  assumes "m1\<lparr>tiles := []\<rparr> = m2\<lparr>tiles := []\<rparr>"
  shows "(explodes b m1)\<lparr>tiles := []\<rparr> = (explodes b m2)\<lparr>tiles := []\<rparr>"
proof -
  have "(explodes b m1)\<lparr>tiles := []\<rparr> = explodes b (m1\<lparr>tiles := []\<rparr>)"
    by (simp add: explodes_tiles)
  also have "\<dots> = explodes b (m2\<lparr>tiles := []\<rparr>)" by (simp only: assms)
  also have "\<dots> = (explodes b m2)\<lparr>tiles := []\<rparr>" by (simp add: explodes_tiles)
  finally show ?thesis .
qed

lemma bomb_explodes_total:
  assumes wf: "grid_wf m" and origin: "tile_is_withing_map (get_tile_position (bomb_of m b))"
  shows "\<exists>m'. bomb_explodes b m = Some m'
           \<and> m'\<lparr>tiles := []\<rparr>
               = (explodes b (add_sound_event SOUND_EVENT_EXPLOSION m))
                   \<lparr>bombs := remove1 b (bombs m), tiles := []\<rparr>
           \<and> strip_flames (tiles m') = strip_flames (tiles m)
           \<and> (\<forall>r < 11. \<forall>c < 15.
                 map flame_key (flames (tiles m' ! r ! c)) =
                   map flame_key (flames (tiles m ! r ! c))
                   @ (if flame_footprint m (get_tile_position (bomb_of m b))
                           (bomb_flame_length (bomb_of m b)) (int c, int r)
                      then [(bomb_player (bomb_of m b), 1000)] else []))"
proof -
  let ?o = "get_tile_position (bomb_of m b)"
  let ?owner = "bomb_player (bomb_of m b)"
  let ?len = "bomb_flame_length (bomb_of m b)"
  let ?m0 = "add_sound_event SOUND_EVENT_EXPLOSION m"
  let ?rc = "(nat (snd ?o), nat (fst ?o))"
  let ?f = "\<lambda>t. t\<lparr>flames := flames t @ [Flame_init ?owner ''all'']\<rparr>"
  let ?m1 = "update_tile ?rc ?f ?m0"
  let ?s0 = "([snd ?o - 1, fst ?o + 1, snd ?o + 1, fst ?o - 1],
              [False, False, False, False], [None, None, None, None], ?m1)"
  have tiles0: "tiles ?m0 = tiles m" by (simp add: add_sound_event_def)
  have ref: "tile_ref (tiles ?m0) ?o = Some ?rc"
    unfolding tiles0 by (rule grid_wf_tile_ref [OF wf origin])
  have keys0: "map flame_key (flames (tiles ?m1 ! r ! c)) =
      map flame_key (flames (tiles m ! r ! c))
      @ (if flame_hit m ?o (\<lambda>_. 0) (int c, int r) then [(?owner, 1000)] else [])"
    if "r < 11" "c < 15" for r c
  proof -
    from that grid_wf_lengths [OF wf] tiles0
    have "r < length (tiles ?m0)" "c < length (tiles ?m0 ! r)" by simp_all
    from update_tile_nth [OF this, of "nat (snd ?o)" "nat (fst ?o)" ?f]
    show ?thesis
      using cell_eq_iff [OF origin, of c r] tiles0
      by (cases "r = nat (snd ?o) \<and> c = nat (fst ?o)")
        (simp_all add: flame_key_def Flame_init_def flame_hit_0)
  qed
  have init: "flame_loop_inv m ?o ?owner (\<lambda>_. 0) ?s0"
    unfolding flame_loop_inv_def prod.case
  proof (intro conjI allI impI)
    show "?m1\<lparr>tiles := []\<rparr>
          = m\<lparr>tiles := [], sound_events := sound_events m @ [SOUND_EVENT_EXPLOSION]\<rparr>"
      by (simp add: update_tile_def add_sound_event_def)
    show "strip_flames (tiles ?m1) = strip_flames (tiles m)"
      using update_tile_strip [of ?f ?rc ?m0] tiles0 by simp
  next
    fix d :: nat assume "d < 4"
    from lt4_cases [OF this]
    show "[snd ?o - 1, fst ?o + 1, snd ?o + 1, fst ?o - 1] ! d = axis_at ?o d 0"
      by (auto simp: axis_at_def)
    from lt4_cases [OF \<open>d < 4\<close>]
    show "[False, False, False, False] ! d = (\<not> ray_open m ?o d 0)"
      by (auto simp: ray_open_def)
  next
    fix r c :: nat assume "r < 11" "c < 15"
    then show "map flame_key (flames (tiles ?m1 ! r ! c)) =
      map flame_key (flames (tiles m ! r ! c))
      @ (if flame_hit m ?o (\<lambda>_. 0) (int c, int r) then [(?owner, 1000)] else [])"
      by (rule keys0)
  qed simp_all
  from flame_loop_total [OF wf origin init, of ?len]
  obtain a st pv m2 where loop: "fold_option (flame_iteration ?o ?owner ?len)
        [0..<nat (?len + 1)] ?s0 = Some (a, st, pv, m2)"
    and other: "m2\<lparr>tiles := []\<rparr>
        = m\<lparr>tiles := [], sound_events := sound_events m @ [SOUND_EVENT_EXPLOSION]\<rparr>"
    and strip: "strip_flames (tiles m2) = strip_flames (tiles m)"
    and keys: "\<forall>r < 11. \<forall>c < 15.
        map flame_key (flames (tiles m2 ! r ! c)) =
          map flame_key (flames (tiles m ! r ! c))
          @ (if flame_footprint m ?o ?len (int c, int r) then [(?owner, 1000)] else [])"
    by blast
  let ?m' = "(explodes b m2)\<lparr>bombs := remove1 b (bombs (explodes b m2))\<rparr>"
  have bomb0: "bomb_of ?m0 b = bomb_of m b"
    by (simp add: bomb_of_def add_sound_event_def)
  have res: "bomb_explodes b m = Some ?m'"
    unfolding bomb_explodes_def Let_def
    using ref loop by (simp add: bomb0 del: fold_option.simps)
  have "m2\<lparr>tiles := []\<rparr> = ?m0\<lparr>tiles := []\<rparr>"
    using other by (simp add: add_sound_event_def)
  from explodes_strip_eq [OF this, of b]
  have ex: "(explodes b m2)\<lparr>tiles := []\<rparr> = (explodes b ?m0)\<lparr>tiles := []\<rparr>" .
  have "bombs m2 = bombs (m2\<lparr>tiles := []\<rparr>)" by simp
  also have "\<dots> = bombs m" by (simp only: other) simp
  finally have bombs2: "bombs m2 = bombs m" .
  have "?m'\<lparr>tiles := []\<rparr>
        = ((explodes b m2)\<lparr>tiles := []\<rparr>)\<lparr>bombs := remove1 b (bombs m)\<rparr>"
    by (simp add: explodes_fields bombs2)
  also have "\<dots> = (explodes b ?m0)\<lparr>bombs := remove1 b (bombs m), tiles := []\<rparr>"
    by (simp only: ex) simp
  finally have o': "?m'\<lparr>tiles := []\<rparr>
        = (explodes b ?m0)\<lparr>bombs := remove1 b (bombs m), tiles := []\<rparr>" .
  have t': "tiles ?m' = tiles m2" by (simp add: explodes_fields)
  show ?thesis
    using res o' strip keys unfolding t' [symmetric] by blast
qed

lemma tile_towards_convex:
  assumes "d < 4" "tile_is_withing_map origin" "tile_is_withing_map (tile_towards origin d k)"
    and "j \<le> k"
  shows "tile_is_withing_map (tile_towards origin d j)"
  using lt4_cases [OF assms(1)] assms(2,3,4)
  by (auto simp: tile_towards_simps tile_is_withing_map_iff)

lemma flame_reaches_open_floor:
  assumes "d < 4" "tile_is_withing_map origin"
    and "\<And>p. tile_is_withing_map p \<Longrightarrow> kind_at m p = TILE_FLOOR"
  shows "flame_reaches m origin d k \<longleftrightarrow> tile_is_withing_map (tile_towards origin d k)"
proof
  assume "flame_reaches m origin d k"
  then show "tile_is_withing_map (tile_towards origin d k)" by (simp add: flame_reaches_def)
next
  assume w: "tile_is_withing_map (tile_towards origin d k)"
  have "tile_is_withing_map (tile_towards origin d j)" if "j \<le> k" for j
    by (rule tile_towards_convex [OF assms(1) assms(2) w that])
  with assms(3) show "flame_reaches m origin d k"
    by (simp add: flame_reaches_def)
qed

text \<open>
  Claim C2. On a map of eleven rows of fifteen tiles, exploding a bomb that lies inside the
  map succeeds, and every tile of the map keeps its kind and its flames and receives
  exactly one new flame (of the bomb's owner, with the full burnout time) if it belongs to
  the footprint, and none otherwise. The footprint is the bomb's own tile and, in each of
  the four directions, the tiles at distance 1 to the flame length that the walk reaches:
  the walk ends at the map edge, ends before a Wall, and ends on a Block, which still
  receives its flame. On a map of floor tiles only, the footprint is the origin and the
  tiles of the map at distance 1 to the flame length in each direction.
\<close>

theorem bomb_explodes_flame_footprint:
  assumes "grid_wf m" "tile_is_withing_map (get_tile_position (bomb_of m b))"
  shows "\<exists>m'. bomb_explodes b m = Some m'
          \<and> (\<forall>q. tile_is_withing_map q \<longrightarrow>
                (\<exists>t t'. get_tile m q = Some t \<and> get_tile m' q = Some t'
                   \<and> kind t' = kind t
                   \<and> map flame_key (flames t') =
                       map flame_key (flames t)
                       @ (if flame_footprint m (get_tile_position (bomb_of m b))
                               (bomb_flame_length (bomb_of m b)) q
                          then [(bomb_player (bomb_of m b), 1000)] else [])))
          \<and> ((\<forall>p. tile_is_withing_map p \<longrightarrow> kind_at m p = TILE_FLOOR) \<longrightarrow>
               (\<forall>q. tile_is_withing_map q \<longrightarrow>
                  (flame_footprint m (get_tile_position (bomb_of m b))
                     (bomb_flame_length (bomb_of m b)) q
                   \<longleftrightarrow> q = get_tile_position (bomb_of m b)
                       \<or> (\<exists>d \<in> {0..<4}. \<exists>k \<in> {1..nat (bomb_flame_length (bomb_of m b))}.
                             q = tile_towards (get_tile_position (bomb_of m b)) d k))))"
proof -
  let ?o = "get_tile_position (bomb_of m b)"
  let ?len = "bomb_flame_length (bomb_of m b)"
  let ?owner = "bomb_player (bomb_of m b)"
  from bomb_explodes_total [OF assms]
  obtain m' where res: "bomb_explodes b m = Some m'"
    and strip: "strip_flames (tiles m') = strip_flames (tiles m)"
    and keys: "\<And>r c. r < 11 \<Longrightarrow> c < 15 \<Longrightarrow>
        map flame_key (flames (tiles m' ! r ! c)) =
          map flame_key (flames (tiles m ! r ! c))
          @ (if flame_footprint m ?o ?len (int c, int r) then [(?owner, 1000)] else [])"
    by blast
  have wf': "grid_wf m'" by (rule grid_wf_strip [OF strip assms(1)])
  have tile: "\<exists>t t'. get_tile m q = Some t \<and> get_tile m' q = Some t' \<and> kind t' = kind t
        \<and> map flame_key (flames t') = map flame_key (flames t)
            @ (if flame_footprint m ?o ?len q then [(?owner, 1000)] else [])"
    if q: "tile_is_withing_map q" for q
  proof -
    note b = grid_wf_bounds [OF q]
    from grid_wf_lengths [OF assms(1)] b
    have in0: "nat (snd q) < length (tiles m)" "nat (fst q) < length (tiles m ! nat (snd q))"
      by simp_all
    have "get_tile m q = Some (tiles m ! nat (snd q) ! nat (fst q))"
      "get_tile m' q = Some (tiles m' ! nat (snd q) ! nat (fst q))"
      by (simp_all add: get_tile_def tile_at_def grid_wf_tile_ref [OF assms(1) q]
          grid_wf_tile_ref [OF wf' q])
    moreover have "kind (tiles m' ! nat (snd q) ! nat (fst q)) = kind (tiles m ! nat (snd q) ! nat (fst q))"
      by (rule strip_flames_kind(1) [OF strip in0])
    moreover have "(int (nat (fst q)), int (nat (snd q))) = q"
      using b by (simp add: prod_eq_iff)
    ultimately show ?thesis
      using keys [OF b(1) b(2)] by simp
  qed
  have floor: "flame_footprint m ?o ?len q \<longleftrightarrow>
        q = ?o \<or> (\<exists>d \<in> {0..<4}. \<exists>k \<in> {1..nat ?len}. q = tile_towards ?o d k)"
    if all: "\<forall>p. tile_is_withing_map p \<longrightarrow> kind_at m p = TILE_FLOOR"
      and q: "tile_is_withing_map q" for q
  proof -
    have "flame_reaches m ?o d k \<longleftrightarrow> tile_is_withing_map (tile_towards ?o d k)"
      if "d < 4" for d k
      by (rule flame_reaches_open_floor [OF that assms(2)]) (use all in blast)
    then show ?thesis
      using q unfolding flame_footprint_def by auto
  qed
  from res tile floor show ?thesis by blast
qed



lemma bex_lt4: "(\<exists>d \<in> {0..<4::nat}. P d) \<longleftrightarrow> P 0 \<or> P (Suc 0) \<or> P 2 \<or> P 3"
proof -
  have "{0..<4::nat} = {0, Suc 0, 2, 3}" by auto
  then show ?thesis by simp
qed

lemma bex_1_3: "(\<exists>k \<in> {1..3::nat}. P k) \<longleftrightarrow> P (Suc 0) \<or> P 2 \<or> P 3"
proof -
  have "{1..3::nat} = {Suc 0, 2, 3}" by auto
  then show ?thesis by simp
qed

lemma ball_1_lt:
  "(\<forall>j \<in> {1..<Suc 0}. P j) \<longleftrightarrow> True"
  "(\<forall>j \<in> {1..<2::nat}. P j) \<longleftrightarrow> P (Suc 0)"
  "(\<forall>j \<in> {1..<3::nat}. P j) \<longleftrightarrow> P (Suc 0) \<and> P 2"
proof -
  have "{1..<2::nat} = {Suc 0}" "{1..<3::nat} = {Suc 0, 2}" by auto
  then show "(\<forall>j \<in> {1..<Suc 0}. P j) \<longleftrightarrow> True"
    "(\<forall>j \<in> {1..<2::nat}. P j) \<longleftrightarrow> P (Suc 0)"
    "(\<forall>j \<in> {1..<3::nat}. P j) \<longleftrightarrow> P (Suc 0) \<and> P 2" by simp_all
qed

lemma example_kind_at:
  assumes "tile_is_withing_map q"
  shows "kind_at example_map q = kind (example_tile q)"
proof -
  note b = grid_wf_bounds [OF assms]
  have "tiles example_map ! nat (snd q) ! nat (fst q)
        = example_tile (int (nat (fst q)), int (nat (snd q)))"
    by (rule example_map_tile [OF b(1) b(2)])
  also have "\<dots> = example_tile q" by (simp only: b(3) b(4) prod.collapse)
  finally show ?thesis by (simp add: kind_at_def)
qed

lemma example_footprint:
  "flame_footprint example_map (5, 5) 3 (3, 5)"
  "\<not> flame_footprint example_map (5, 5) 3 (2, 5)"
  "flame_footprint example_map (5, 5) 3 (6, 5)"
  "\<not> flame_footprint example_map (5, 5) 3 (7, 5)"
  "\<not> flame_footprint example_map (5, 5) 3 (8, 5)"
  "flame_footprint example_map (5, 5) 3 (5, 2)"
  "\<not> flame_footprint example_map (5, 5) 3 (5, 1)"
  "flame_footprint example_map (5, 5) 3 (5, 5)"
  "\<not> flame_footprint example_map (5, 5) 3 (6, 6)"
  by (simp_all add: flame_footprint_def flame_reaches_def bex_lt4 bex_1_3 ball_1_lt
      tile_towards_simps example_kind_at tile_is_withing_map_iff example_tile_def
      MapTile_init_def)


lemma example_get_tile:
  assumes "tile_is_withing_map q"
  shows "get_tile example_map q = Some (example_tile q)"
proof -
  note b = grid_wf_bounds [OF assms]
  have "tiles example_map ! nat (snd q) ! nat (fst q)
        = example_tile (int (nat (fst q)), int (nat (snd q)))"
    by (rule example_map_tile [OF b(1) b(2)])
  also have "\<dots> = example_tile q" by (simp only: b(3) b(4) prod.collapse)
  finally show ?thesis
    by (simp add: get_tile_def tile_at_def grid_wf_tile_ref [OF example_map_wf assms])
qed

theorem bomb_explodes_flame_footprint_witness:
  "grid_wf example_map
   \<and> tile_is_withing_map (get_tile_position (bomb_of example_map 0))
   \<and> (\<exists>m'. bomb_explodes 0 example_map = Some m'
         \<and> map_option (\<lambda>t. map flame_key (flames t)) (get_tile m' (5, 5)) = Some [(0, 1000)]
         \<and> map_option (\<lambda>t. map flame_key (flames t)) (get_tile m' (3, 5)) = Some [(0, 1000)]
         \<and> map_option (\<lambda>t. map flame_key (flames t)) (get_tile m' (2, 5)) = Some []
         \<and> map_option (\<lambda>t. map flame_key (flames t)) (get_tile m' (6, 5)) = Some [(0, 1000)]
         \<and> map_option (\<lambda>t. map flame_key (flames t)) (get_tile m' (7, 5)) = Some []
         \<and> map_option (\<lambda>t. map flame_key (flames t)) (get_tile m' (8, 5)) = Some []
         \<and> map_option (\<lambda>t. map flame_key (flames t)) (get_tile m' (5, 2)) = Some [(0, 1000)]
         \<and> map_option (\<lambda>t. map flame_key (flames t)) (get_tile m' (5, 1)) = Some []
         \<and> map_option (\<lambda>t. map flame_key (flames t)) (get_tile m' (6, 6)) = Some [])"
proof -
  have origin: "tile_is_withing_map (get_tile_position (bomb_of example_map 0))"
    by (simp add: example_map_bombs example_bomb_fields tile_is_withing_map_iff)
  from bomb_explodes_flame_footprint [OF example_map_wf origin]
  obtain m' where res: "bomb_explodes 0 example_map = Some m'"
    and tile: "\<And>q. tile_is_withing_map q \<Longrightarrow>
        \<exists>t t'. get_tile example_map q = Some t \<and> get_tile m' q = Some t'
          \<and> kind t' = kind t
          \<and> map flame_key (flames t') =
              map flame_key (flames t)
              @ (if flame_footprint example_map (5, 5) 3 q then [(0, 1000)] else [])"
    unfolding example_map_bombs example_bomb_fields by blast
  have F: "map_option (\<lambda>t. map flame_key (flames t)) (get_tile m' q)
           = Some (if flame_footprint example_map (5, 5) 3 q then [(0, 1000)] else [])"
    if "tile_is_withing_map q" for q
    using tile [OF that] example_get_tile [OF that]
    by (auto simp: example_tile_def MapTile_init_def)
  have w: "tile_is_withing_map (5, 5)" "tile_is_withing_map (3, 5)" "tile_is_withing_map (2, 5)"
    "tile_is_withing_map (6, 5)" "tile_is_withing_map (7, 5)" "tile_is_withing_map (8, 5)"
    "tile_is_withing_map (5, 2)" "tile_is_withing_map (5, 1)" "tile_is_withing_map (6, 6)"
    by (simp_all add: tile_is_withing_map_iff)
  show ?thesis
    using example_map_wf origin res w [THEN F] example_footprint by simp
qed

section \<open>Explosions: the owner is notified once\<close>

lemma bomb_explodes_effect:
  assumes wf: "grid_wf m" and origin: "tile_is_withing_map (get_tile_position (bomb_of m b))"
  shows "\<exists>m'. bomb_explodes b m = Some m'
           \<and> grid_wf m'
           \<and> bombs m' = remove1 b (bombs m)
           \<and> players m' = players (explodes b m)
           \<and> bomb_store m' = bomb_store (explodes b m)
           \<and> bomb_alloc m' = bomb_alloc m
           \<and> map_state m' = map_state m"
proof -
  let ?X = "(explodes b (add_sound_event SOUND_EVENT_EXPLOSION m))
              \<lparr>bombs := remove1 b (bombs m), tiles := []\<rparr>"
  from bomb_explodes_total [OF assms]
  obtain m' where res: "bomb_explodes b m = Some m'"
    and other: "m'\<lparr>tiles := []\<rparr> = ?X"
    and strip: "strip_flames (tiles m') = strip_flames (tiles m)"
    by blast
  have wf': "grid_wf m'" by (rule grid_wf_strip [OF strip wf])
  have "bombs m' = bombs (m'\<lparr>tiles := []\<rparr>)" by simp
  also have "\<dots> = remove1 b (bombs m)" by (simp only: other) simp
  finally have 1: "bombs m' = remove1 b (bombs m)" .
  have "players m' = players (m'\<lparr>tiles := []\<rparr>)" by simp
  also have "\<dots> = players (explodes b m)"
    by (simp only: other) (simp add: explodes_def add_sound_event_def bomb_of_def)
  finally have 2: "players m' = players (explodes b m)" .
  have "bomb_store m' = bomb_store (m'\<lparr>tiles := []\<rparr>)" by simp
  also have "\<dots> = bomb_store (explodes b m)"
    by (simp only: other) (simp add: explodes_def add_sound_event_def bomb_of_def)
  finally have 3: "bomb_store m' = bomb_store (explodes b m)" .
  have "bomb_alloc m' = bomb_alloc (m'\<lparr>tiles := []\<rparr>)" by simp
  also have "\<dots> = bomb_alloc m"
    by (simp only: other) (simp add: explodes_def add_sound_event_def)
  finally have 4: "bomb_alloc m' = bomb_alloc m" .
  have "map_state m' = map_state (m'\<lparr>tiles := []\<rparr>)" by simp
  also have "\<dots> = map_state m"
    by (simp only: other) (simp add: explodes_def add_sound_event_def)
  finally have 5: "map_state m' = map_state m" .
  from res wf' 1 2 3 4 5 show ?thesis by blast
qed

lemma explodes_bomb_of:
  "bomb_of (explodes b m) b' =
     (if b' = b \<and> \<not> has_exploded (bomb_of m b) then (bomb_of m b)\<lparr>has_exploded := True\<rparr>
      else bomb_of m b')"
  by (simp add: explodes_def bomb_of_def)


lemma explodes_players_length: "length (players (explodes b m)) = length (players m)"
  by (simp add: explodes_def)





lemma example_map_ready: "explosion_ready example_map 0"
  by (simp add: explosion_ready_def example_map_bombs example_bomb_fields
      tile_is_withing_map_iff)
    (simp add: example_map_def)

section \<open>The bomb update is total on a well-formed map\<close>

lemma grid_wf_tiles_cong: "tiles m' = tiles m \<Longrightarrow> grid_wf m' = grid_wf m"
  by (simp add: grid_wf_def)

lemma grid_wf_update_tile:
  assumes "\<And>t. coordinates (f t) = coordinates t" "grid_wf m"
  shows "grid_wf (update_tile rc f m)"
proof -
  from assms(2) have len0: "length (tiles m) = 11"
    and row0: "\<And>r. r < 11 \<Longrightarrow> length (tiles m ! r) = 15"
    and co0: "\<And>r c. r < 11 \<Longrightarrow> c < 15 \<Longrightarrow> coordinates (tiles m ! r ! c) = (int c, int r)"
    by (auto simp: grid_wf_def MAP_SIZE_def list_all_iff)
  let ?m = "update_tile rc f m"
  have len: "length (tiles ?m) = 11" using len0 by (simp add: update_tile_def)
  have row: "length (tiles ?m ! r) = 15" if "r < 11" for r
    using row0 [OF that] len0 that
    by (cases "r = fst rc") (simp_all add: update_tile_def)
  have co: "coordinates (tiles ?m ! r ! c) = (int c, int r)" if "r < 11" "c < 15" for r c
  proof -
    from that len0 row0 have "r < length (tiles m)" "c < length (tiles m ! r)" by simp_all
    from update_tile_nth [OF this, of "fst rc" "snd rc" f] co0 [OF that] assms(1)
    show ?thesis by (cases "r = fst rc \<and> c = snd rc") auto
  qed
  have "line \<in> set (tiles ?m) \<Longrightarrow> length line = 15" for line
    using len row by (auto simp: in_set_conv_nth)
  then show ?thesis
    using len row co by (auto simp: grid_wf_def MAP_SIZE_def list_all_iff)
qed

lemma special_objects_update_tile:
  assumes "\<And>t. special_object (f t) = special_object t"
  shows "special_objects (update_tile rc f m) = special_objects m"
proof -
  let ?T = "tiles m" and ?r = "fst rc" and ?c = "snd rc"
  have row: "map special_object ((?T ! ?r)[?c := f (?T ! ?r ! ?c)]) = map special_object (?T ! ?r)"
  proof (cases "?c < length (?T ! ?r)")
    case True
    have "map special_object ((?T ! ?r)[?c := f (?T ! ?r ! ?c)])
            = (map special_object (?T ! ?r))[?c := special_object (?T ! ?r ! ?c)]"
      by (simp add: map_update assms)
    also have "\<dots> = (map special_object (?T ! ?r))[?c := map special_object (?T ! ?r) ! ?c]"
      using True by simp
    also have "\<dots> = map special_object (?T ! ?r)" by (rule list_update_id)
    finally show ?thesis .
  next
    case False
    then show ?thesis by (simp add: list_update_beyond)
  qed
  show ?thesis
  proof (cases "?r < length ?T")
    case True
    have "map (map special_object) (?T[?r := (?T ! ?r)[?c := f (?T ! ?r ! ?c)]])
            = (map (map special_object) ?T)
                [?r := map special_object ((?T ! ?r)[?c := f (?T ! ?r ! ?c)])]"
      by (rule map_update)
    also have "\<dots> = (map (map special_object) ?T)[?r := map special_object (?T ! ?r)]"
      by (simp only: row)
    also have "\<dots> = (map (map special_object) ?T)[?r := map (map special_object) ?T ! ?r]"
      using True by simp
    also have "\<dots> = map (map special_object) ?T" by (rule list_update_id)
    finally show ?thesis by (simp add: special_objects_def update_tile_def)
  next
    case False
    then show ?thesis by (simp add: special_objects_def update_tile_def list_update_beyond)
  qed
qed

lemma bomb_frame_refl: "grid_wf m \<Longrightarrow> bomb_store m b \<noteq> None \<Longrightarrow> bomb_frame b m m"
  by (simp add: bomb_frame_def)

lemma bomb_frame_trans:
  "bomb_frame b m m1 \<Longrightarrow> bomb_frame b m1 m2 \<Longrightarrow> bomb_frame b m m2"
  by (simp add: bomb_frame_def)

lemma bomb_frame_set_bomb: "grid_wf m \<Longrightarrow> bomb_frame b m (set_bomb b f m)"
  by (simp add: bomb_frame_def set_bomb_def special_objects_def
      grid_wf_tiles_cong [of "set_bomb b f m" m, unfolded set_bomb_def])

lemma bomb_frame_sound:
  "grid_wf m \<Longrightarrow> bomb_store m b \<noteq> None \<Longrightarrow> bomb_frame b m (add_sound_event e m)"
  by (simp add: bomb_frame_def add_sound_event_def special_objects_def
      grid_wf_tiles_cong [of "add_sound_event e m" m, unfolded add_sound_event_def])

lemma bomb_frame_clear_item:
  assumes "grid_wf m" "bomb_store m b \<noteq> None"
  shows "bomb_frame b m (update_tile rc (\<lambda>t. t\<lparr>item := None\<rparr>) m)"
proof -
  have "grid_wf (update_tile rc (\<lambda>t. t\<lparr>item := None\<rparr>) m)"
    by (rule grid_wf_update_tile) (simp_all add: assms(1))
  moreover have "special_objects (update_tile rc (\<lambda>t. t\<lparr>item := None\<rparr>) m) = special_objects m"
    by (rule special_objects_update_tile) simp
  ultimately show ?thesis using assms(2) by (simp add: bomb_frame_def update_tile_def)
qed

lemma tile_has_teleport_total:
  assumes "grid_wf m"
  shows "\<exists>w. tile_has_teleport m p = Some w"
  using assms
  by (cases "tile_is_withing_map p")
    (auto simp: tile_has_teleport_def get_tile_def grid_wf_tile_ref)

lemma flying_bomb_keeps_flying_total:
  assumes "grid_wf m"
  shows "\<exists>w. flying_bomb_keeps_flying m p = Some w"
  using tile_is_walkable_total [OF assms, of p] tile_has_teleport_total [OF assms, of p]
  by (auto simp: flying_bomb_keeps_flying_def split: bool.splits)

lemma rolling_bomb_blocked_total:
  assumes "grid_wf m"
  shows "\<exists>w. rolling_bomb_blocked m p = Some w"
  using tile_is_walkable_total [OF assms, of p] tile_has_teleport_total [OF assms, of p]
  by (auto simp: rolling_bomb_blocked_def split: bool.splits)

lemma bomb_frameD:
  assumes "bomb_frame b m m'"
  shows "grid_wf m'" "bombs m' = bombs m" "players m' = players m" "bomb_store m' b \<noteq> None"
    "b' \<noteq> b \<Longrightarrow> bomb_store m' b' = bomb_store m b'"
  using assms by (simp_all add: bomb_frame_def)

lemma update_flying_bomb_total:
  assumes wf: "grid_wf m" and w: "tile_is_withing_map (get_tile_position (bomb_of m b))"
  shows "\<exists>m'. update_flying_bomb dt b m = Some m' \<and> bomb_frame b m m'"
proof -
  let ?f1 = "\<lambda>bomb. bomb\<lparr>flight_info := (flight_info bomb)
                    \<lparr>distance_travelled :=
                       distance_travelled (flight_info bomb) + of_int dt / 1000 * FLYING_SPEED\<rparr>\<rparr>"
  let ?m1 = "set_bomb b ?f1 m"
  let ?bomb = "bomb_of ?m1 b"
  let ?tile = "get_tile_position ?bomb"
  let ?m2 = "add_sound_event SOUND_EVENT_BOMB_PUT ?m1"
  have f1: "bomb_frame b m ?m1" by (rule bomb_frame_set_bomb [OF wf])
  have tile: "?tile = get_tile_position (bomb_of m b)"
    by (simp add: set_bomb_def bomb_of_def get_tile_position_def)
  have f2: "bomb_frame b m ?m2"
    by (rule bomb_frame_trans [OF f1 bomb_frame_sound]) (use f1 in \<open>simp_all add: bomb_frame_def\<close>)
  then have wf2: "grid_wf ?m2" by (simp add: bomb_frame_def)
  show ?thesis
  proof (cases "distance_travelled (flight_info ?bomb)
                  \<ge> of_int (total_distance_to_travel (flight_info ?bomb))")
    case False
    then show ?thesis using f1 by (simp add: update_flying_bomb_def Let_def)
  next
    case True
    from flying_bomb_keeps_flying_total [OF wf2, of ?tile]
    obtain k where k: "flying_bomb_keeps_flying ?m2 ?tile = Some k" by blast
    show ?thesis
    proof (cases k)
      case True
      let ?m3 = "set_bomb b (send_flying (Position_add ?tile (direction (flight_info ?bomb)))) ?m2"
      have "bomb_frame b m ?m3"
        by (rule bomb_frame_trans [OF f2 bomb_frame_set_bomb [OF wf2]])
      then show ?thesis
        using \<open>distance_travelled (flight_info ?bomb) \<ge> _\<close> k True
        by (simp add: update_flying_bomb_def Let_def)
    next
      case False
      let ?m3 = "set_bomb b (\<lambda>bomb. bomb\<lparr>movement := BOMB_NO_MOVEMENT\<rparr>) ?m2"
      have f3: "bomb_frame b m ?m3"
        by (rule bomb_frame_trans [OF f2 bomb_frame_set_bomb [OF wf2]])
      then have wf3: "grid_wf ?m3" and st3: "bomb_store ?m3 b \<noteq> None"
        by (simp_all add: bomb_frame_def)
      from w tile have w': "tile_is_withing_map ?tile" by simp
      let ?rc = "(nat (snd ?tile), nat (fst ?tile))"
      have ref: "tile_ref (tiles ?m3) ?tile = Some ?rc"
        by (rule grid_wf_tile_ref [OF wf3 w'])
      have "bomb_frame b m (update_tile ?rc (\<lambda>t. t\<lparr>item := None\<rparr>) ?m3)"
        by (rule bomb_frame_trans [OF f3 bomb_frame_clear_item [OF wf3 st3]])
      moreover have "clear_item_at ?tile ?m3 = Some (update_tile ?rc (\<lambda>t. t\<lparr>item := None\<rparr>) ?m3)"
        using w' ref by (simp add: clear_item_at_def)
      ultimately show ?thesis
        using \<open>distance_travelled (flight_info ?bomb) \<ge> _\<close> k False
        by (simp add: update_flying_bomb_def Let_def)
    qed
  qed
qed

lemma update_rolling_bomb_total:
  assumes wf: "grid_wf m" and st: "bomb_store m b \<noteq> None"
    and w: "tile_is_withing_map bomb_tile"
  shows "\<exists>m'. update_rolling_bomb dt b bp0 bomb_tile m = Some m' \<and> bomb_frame b m m'"
proof -
  let ?rc = "(nat (snd bomb_tile), nat (fst bomb_tile))"
  define stage1 where "stage1 =
     (if is_near_tile_center (bomb_of m b)
            then (case get_tile m bomb_tile of
                    None \<Rightarrow> None
                  | Some t \<Rightarrow>
                      (case redirect_bomb (special_object t) bp0 bomb_tile
                              (bomb_of m b) of
                         None \<Rightarrow> Some (m, bp0)
                       | Some bomb' \<Rightarrow> Some (set_bomb b (\<lambda>_. bomb') m, position bomb')))
            else Some (m, bp0))"
  have gt: "get_tile m bomb_tile = Some (tile_at m ?rc)"
    using w grid_wf_tile_ref [OF wf w] by (simp add: get_tile_def)
  have "\<exists>m1 bp. stage1 = Some (m1, bp) \<and> bomb_frame b m m1"
    unfolding stage1_def gt
    using bomb_frame_refl [OF wf st] bomb_frame_set_bomb [OF wf]
    by (auto split: option.splits)
  then obtain m1 bp where s1: "stage1 = Some (m1, bp)" and f1: "bomb_frame b m m1" by blast
  then have wf1: "grid_wf m1" and st1: "bomb_store m1 b \<noteq> None" by (simp_all add: bomb_frame_def)
  have ref1: "tile_ref (tiles m1) bomb_tile = Some ?rc" by (rule grid_wf_tile_ref [OF wf1 w])
  define m2 where "m2 = (if item (tile_at m1 ?rc) \<noteq> None
                          then update_tile ?rc (\<lambda>t. t\<lparr>item := None\<rparr>) m1 else m1)"
  have f2: "bomb_frame b m m2"
    unfolding m2_def
    using f1 bomb_frame_trans [OF f1 bomb_frame_clear_item [OF wf1 st1]] by simp
  then have wf2: "grid_wf m2" and st2: "bomb_store m2 b \<noteq> None" by (simp_all add: bomb_frame_def)
  define step where "step = roll_step (movement (bomb_of m2 b)) bp bomb_tile
                             (of_int dt / 1000 * ROLLING_SPEED)"
  define m3 where "m3 = (if movement (bomb_of m2 b) \<in> set [BOMB_ROLLING_UP, BOMB_ROLLING_RIGHT,
                                                            BOMB_ROLLING_DOWN, BOMB_ROLLING_LEFT]
                          then set_bomb b (\<lambda>bomb. bomb\<lparr>position := fst step\<rparr>) m2 else m2)"
  have f3: "bomb_frame b m m3"
    unfolding m3_def
    using f2 bomb_frame_trans [OF f2 bomb_frame_set_bomb [OF wf2]] by simp
  then have wf3: "grid_wf m3" and st3: "bomb_store m3 b \<noteq> None" by (simp_all add: bomb_frame_def)
  define final where "final = (case snd (snd step) of
                     None \<Rightarrow> Some m3
                   | Some forward_tile \<Rightarrow>
                       (case rolling_bomb_blocked m3 forward_tile of
                          None \<Rightarrow> None
                        | Some False \<Rightarrow> Some m3
                        | Some True \<Rightarrow>
                            if bomb_has_spring (bomb_of m3 b)
                            then Some (add_sound_event SOUND_EVENT_SPRING
                                   (set_bomb b (\<lambda>bomb. (move_to_tile_center bomb)
                                      \<lparr>movement := fst (snd step)\<rparr>) m3))
                            else Some (add_sound_event SOUND_EVENT_KICK
                                   (set_bomb b (\<lambda>bomb. (move_to_tile_center bomb)
                                      \<lparr>movement := BOMB_NO_MOVEMENT\<rparr>) m3))))"
  have snd_frame: "bomb_frame b m (add_sound_event e (set_bomb b f m3))" for e f
  proof -
    have a: "bomb_frame b m3 (set_bomb b f m3)" by (rule bomb_frame_set_bomb [OF wf3])
    then have "bomb_frame b (set_bomb b f m3) (add_sound_event e (set_bomb b f m3))"
      by (intro bomb_frame_sound) (simp_all add: bomb_frame_def)
    from bomb_frame_trans [OF f3 bomb_frame_trans [OF a this]] show ?thesis .
  qed
  have "\<exists>m'. final = Some m' \<and> bomb_frame b m m'"
  proof (cases "snd (snd step)")
    case None
    then show ?thesis using f3 by (simp add: final_def)
  next
    case (Some ft)
    from rolling_bomb_blocked_total [OF wf3, of ft]
    obtain k where k: "rolling_bomb_blocked m3 ft = Some k" by blast
    show ?thesis using Some k f3 snd_frame by (cases k) (simp_all add: final_def)
  qed
  moreover have "update_rolling_bomb dt b bp0 bomb_tile m = final"
    unfolding update_rolling_bomb_def stage1_def [symmetric] s1
    unfolding final_def m3_def step_def m2_def
    by (simp only: option.case prod.case ref1 Let_def)
  ultimately show ?thesis by simp
qed

lemma drop_remove1_nth:
  "distinct xs \<Longrightarrow> i < length xs \<Longrightarrow> drop i (remove1 (xs ! i) xs) = drop (Suc i) xs"
proof (induction xs arbitrary: i)
  case Nil
  then show ?case by simp
next
  case (Cons x xs)
  show ?case
  proof (cases i)
    case 0
    then show ?thesis by simp
  next
    case (Suc j)
    with Cons.prems have "xs ! j \<noteq> x" "distinct xs" "j < length xs" by auto
    with Cons.IH [of j] Suc show ?thesis by simp
  qed
qed

lemma special_objects_strip:
  "strip_flames (tiles m') = strip_flames (tiles m) \<Longrightarrow> special_objects m' = special_objects m"
proof -
  assume a: "strip_flames (tiles m') = strip_flames (tiles m)"
  have "map (map special_object) (strip_flames ts) = map (map special_object) ts" for ts
    by (simp add: strip_flames_def comp_def)
  from this [of "tiles m'"] this [of "tiles m"] a show ?thesis
    by (simp add: special_objects_def)
qed

lemma bomb_step_explodes:
  assumes wf: "grid_wf m" and ready: "explosion_ready m b"
  shows "\<exists>m'. bomb_explodes b m = Some m' \<and> bomb_step b m m' False
               \<and> bomb_of m' b = (bomb_of m b)\<lparr>has_exploded := True\<rparr>"
proof -
  from ready have origin: "tile_is_withing_map (get_tile_position (bomb_of m b))"
    by (simp add: explosion_ready_def)
  from bomb_explodes_total [OF wf origin]
  obtain m' where res: "bomb_explodes b m = Some m'"
    and strip: "strip_flames (tiles m') = strip_flames (tiles m)" by blast
  from bomb_explodes_effect [OF wf origin] res
  have e: "grid_wf m'" "bombs m' = remove1 b (bombs m)" "players m' = players (explodes b m)"
    "bomb_store m' = bomb_store (explodes b m)" by simp_all
  have "bomb_of m' b' = bomb_of (explodes b m) b'" for b'
    by (simp add: bomb_of_def e(4))
  then have "bomb_of m' b = (bomb_of m b)\<lparr>has_exploded := True\<rparr>"
    by (cases "has_exploded (bomb_of m b)") (simp_all add: explodes_bomb_of)
  moreover have "bomb_store m' b' = bomb_store m b'" if "b' \<noteq> b" for b'
    using that by (simp add: e(4) explodes_def)
  ultimately show ?thesis
    using res e special_objects_strip [OF strip]
    by (simp add: bomb_step_def explodes_players_length)
qed

lemma bomb_frame_step: "bomb_frame b m m' \<Longrightarrow> bomb_step b m m' True"
  by (simp add: bomb_frame_def bomb_step_def)

lemma bomb_step_set_bomb:
  assumes "bomb_step b (set_bomb b f m) m' adv"
  shows "bomb_step b m m' adv"
  using assms by (simp add: bomb_step_def set_bomb_def special_objects_def)

lemma explosion_ready_set_bomb:
  assumes "explosion_ready m b" "\<And>x. position (f x) = position x"
    "\<And>x. bomb_player (f x) = bomb_player x"
  shows "explosion_ready (set_bomb b f m) b"
  using assms
  by (simp add: explosion_ready_def set_bomb_def bomb_of_def get_tile_position_def)

lemma update_bomb_step:
  assumes wf: "grid_wf m" and ready: "explosion_ready m b"
  shows "\<exists>m' adv. update_bomb dt b m = Some (m', adv) \<and> bomb_step b m m' adv"
proof (cases "has_exploded (bomb_of m b)")
  case True
  have "grid_wf (m\<lparr>bombs := remove1 b (bombs m)\<rparr>)"
    using wf by (simp add: grid_wf_tiles_cong [of "m\<lparr>bombs := remove1 b (bombs m)\<rparr>" m])
  then show ?thesis
    using True by (auto simp: update_bomb_def bomb_step_def special_objects_def)
next
  case False
  define m1 where "m1 = set_bomb b (\<lambda>bomb. bomb\<lparr>time_of_existence := time_of_existence bomb + dt\<rparr>) m"
  define bomb where "bomb = bomb_of m1 b"
  define rest where "rest =
     (case (if movement bomb \<noteq> BOMB_FLYING
                     then map_option
                            (\<lambda>t. special_object t = Some SPECIAL_OBJECT_LAVA
                                 \<and> is_near_tile_center bomb)
                            (get_tile m1 (get_tile_position bomb))
                     else Some False) of
                 None \<Rightarrow> None
               | Some True \<Rightarrow> map_option (\<lambda>m'. (m', False)) (bomb_explodes b m1)
               | Some False \<Rightarrow>
                   map_option (\<lambda>m'. (m', True))
                     (if movement bomb \<noteq> BOMB_NO_MOVEMENT
                      then (if movement bomb = BOMB_FLYING then update_flying_bomb dt b m1
                            else update_rolling_bomb dt b (position bomb) (get_tile_position bomb) m1)
                      else Some m1))"
  have unfold: "update_bomb dt b m =
     (if movement bomb \<noteq> BOMB_FLYING
         \<and> time_of_existence bomb > explodes_in bomb + detonator_time bomb
      then map_option (\<lambda>m'. (m', False)) (bomb_explodes b m1) else rest)"
    unfolding update_bomb_def rest_def bomb_def m1_def Let_def using False
    by (simp only: if_False)
  have f1: "bomb_frame b m m1" unfolding m1_def by (rule bomb_frame_set_bomb [OF wf])
  then have wf1: "grid_wf m1" and st1: "bomb_store m1 b \<noteq> None" by (simp_all add: bomb_frame_def)
  have ready1: "explosion_ready m1 b"
    unfolding m1_def by (rule explosion_ready_set_bomb [OF ready]) simp_all
  then have w1: "tile_is_withing_map (get_tile_position bomb)"
    by (simp add: explosion_ready_def bomb_def)
  from bomb_step_explodes [OF wf1 ready1]
  obtain mx where mx: "bomb_explodes b m1 = Some mx" "bomb_step b m1 mx False" by blast
  from mx(2) have stepx: "bomb_step b m mx False"
    unfolding m1_def by (rule bomb_step_set_bomb)
  have "\<exists>m' adv. rest = Some (m', adv) \<and> bomb_step b m m' adv"
  proof -
    let ?rc = "(nat (snd (get_tile_position bomb)), nat (fst (get_tile_position bomb)))"
    have gt: "get_tile m1 (get_tile_position bomb) = Some (tile_at m1 ?rc)"
      using grid_wf_tile_ref [OF wf1 w1] by (simp add: get_tile_def)
    define lava where "lava = (movement bomb \<noteq> BOMB_FLYING
       \<and> special_object (tile_at m1 ?rc) = Some SPECIAL_OBJECT_LAVA \<and> is_near_tile_center bomb)"
    have cond: "(if movement bomb \<noteq> BOMB_FLYING
                     then map_option
                            (\<lambda>t. special_object t = Some SPECIAL_OBJECT_LAVA
                                 \<and> is_near_tile_center bomb)
                            (get_tile m1 (get_tile_position bomb))
                     else Some False) = Some lava"
      by (simp add: gt lava_def)
    show ?thesis
    proof (cases lava)
      case True
      then show ?thesis using mx(1) stepx by (auto simp: rest_def cond)
    next
      case nl: False
      have "\<exists>m'. (if movement bomb \<noteq> BOMB_NO_MOVEMENT
                      then (if movement bomb = BOMB_FLYING then update_flying_bomb dt b m1
                            else update_rolling_bomb dt b (position bomb) (get_tile_position bomb) m1)
                      else Some m1) = Some m' \<and> bomb_frame b m1 m'"
        using update_flying_bomb_total [OF wf1, of b dt] w1
          update_rolling_bomb_total [OF wf1 st1 w1, of dt "position bomb"]
          bomb_frame_refl [OF wf1 st1]
        by (simp add: bomb_def)
      then obtain m' where m': "(if movement bomb \<noteq> BOMB_NO_MOVEMENT
                      then (if movement bomb = BOMB_FLYING then update_flying_bomb dt b m1
                            else update_rolling_bomb dt b (position bomb) (get_tile_position bomb) m1)
                      else Some m1) = Some m'" and fr: "bomb_frame b m1 m'" by blast
      from bomb_frame_step [OF bomb_frame_trans [OF f1 fr]]
      show ?thesis using nl by (auto simp: rest_def cond m')
    qed
  qed
  then show ?thesis using mx(1) stepx by (auto simp: unfold)
qed

lemma bomb_step_ready:
  assumes "bomb_step b m m' adv" "explosion_ready m b'" "b' \<noteq> b"
  shows "explosion_ready m' b'"
  using assms by (simp add: bomb_step_def explosion_ready_def bomb_of_def)

lemma update_bombs_loop_rule:
  assumes inv: "I i m"
    and step: "\<And>i m. I i m \<Longrightarrow> i < length (bombs m) \<Longrightarrow>
                 \<exists>m' adv. update_bomb dt (bombs m ! i) m = Some (m', adv)
                    \<and> I (if adv then i + 1 else i) m'
                    \<and> length (bombs m') - (if adv then i + 1 else i) < length (bombs m) - i"
  shows "\<exists>m' j. update_bombs_loop dt i m = Some m' \<and> I j m' \<and> length (bombs m') \<le> j"
  using inv
proof (induction "length (bombs m) - i" arbitrary: i m rule: less_induct)
  case less
  show ?case
  proof (cases "i < length (bombs m)")
    case False
    then show ?thesis
      using less.prems by (subst update_bombs_loop.simps) auto
  next
    case True
    from step [OF less.prems True]
    obtain m' adv where s: "update_bomb dt (bombs m ! i) m = Some (m', adv)"
      and i': "I (if adv then i + 1 else i) m'"
      and dec: "length (bombs m') - (if adv then i + 1 else i) < length (bombs m) - i"
      by blast
    from less.hyps [OF dec i']
    show ?thesis using True s by (subst update_bombs_loop.simps) simp
  qed
qed

lemma bomb_of_set_bomb:
  "bomb_of (set_bomb b f m) b' = (if b' = b then f (bomb_of m b) else bomb_of m b')"
  by (simp add: set_bomb_def bomb_of_def)

lemma get_tile_set_bomb: "get_tile (set_bomb b f m) p = get_tile m p"
proof -
  have "tile_at (set_bomb b f m) = tile_at m"
    by (rule ext) (simp add: tile_at_def set_bomb_def)
  then show ?thesis by (simp add: get_tile_def) (simp add: set_bomb_def)
qed

lemma lava_at_cong:
  assumes wf: "grid_wf m" and wf': "grid_wf m'"
    and so: "special_objects m' = special_objects m" and w: "tile_is_withing_map p"
  shows "lava_at m' p = lava_at m p"
proof -
  let ?r = "nat (snd p)" and ?c = "nat (fst p)"
  from w have b: "?r < 11" "?c < 15" by (auto simp: tile_is_withing_map_iff)
  have len: "length (tiles x) = 11 \<and> length (tiles x ! ?r) = 15" if "grid_wf x" for x
    using that b by (auto simp: grid_wf_def MAP_SIZE_def list_all_iff)
  have so_nth: "special_object (tiles x ! ?r ! ?c) = special_objects x ! ?r ! ?c"
    if "grid_wf x" for x
    using len [OF that] b by (simp add: special_objects_def)
  have gt: "get_tile x p = Some (tiles x ! ?r ! ?c)" if "grid_wf x" for x
    using grid_wf_tile_ref [OF that w] by (simp add: get_tile_def tile_at_def)
  show ?thesis
    by (simp add: lava_at_def gt [OF wf] gt [OF wf'] so_nth [OF wf] so_nth [OF wf'] so)
qed

lemma update_bomb_plain:
  assumes wf: "grid_wf m" and ready: "explosion_ready m b"
    and plain: "plain_bomb (bomb_of m b)"
    and nolava: "\<not> lava_at m (get_tile_position (bomb_of m b))"
  shows "\<exists>m'. update_bomb dt b m = Some (m', time_of_existence (bomb_of m b) + dt \<le> 3000)
           \<and> bomb_step b m m' (time_of_existence (bomb_of m b) + dt \<le> 3000)
           \<and> (if time_of_existence (bomb_of m b) + dt > 3000
               then has_exploded (bomb_of m' b)
               else bomb_of m' b = (bomb_of m b)
                      \<lparr>time_of_existence := time_of_existence (bomb_of m b) + dt\<rparr>)"
proof -
  let ?f = "\<lambda>bomb. bomb\<lparr>time_of_existence := time_of_existence bomb + dt\<rparr>"
  let ?m1 = "set_bomb b ?f m"
  have f1: "bomb_frame b m ?m1" by (rule bomb_frame_set_bomb [OF wf])
  then have wf1: "grid_wf ?m1" by (simp add: bomb_frame_def)
  have ready1: "explosion_ready ?m1 b"
    by (rule explosion_ready_set_bomb [OF ready]) simp_all
  from ready have w: "tile_is_withing_map (get_tile_position (bomb_of m b))"
    by (simp add: explosion_ready_def)
  have pos: "get_tile_position (?f (bomb_of m b)) = get_tile_position (bomb_of m b)"
    by (simp add: get_tile_position_def)
  from plain have p: "movement (bomb_of m b) = BOMB_NO_MOVEMENT" "\<not> has_exploded (bomb_of m b)"
    "explodes_in (bomb_of m b) = 3000" "detonator_time (bomb_of m b) = 0"
    by (simp_all add: plain_bomb_def BOMB_EXPLODES_IN_def)
  show ?thesis
  proof (cases "time_of_existence (bomb_of m b) + dt > 3000")
    case True
    from bomb_step_explodes [OF wf1 ready1]
    obtain mx where mx: "bomb_explodes b ?m1 = Some mx" "bomb_step b ?m1 mx False"
      "bomb_of mx b = (bomb_of ?m1 b)\<lparr>has_exploded := True\<rparr>" by blast
    from mx(2) have "bomb_step b m mx False" by (rule bomb_step_set_bomb)
    then show ?thesis
      using True p mx(1,3) by (simp add: update_bomb_def Let_def bomb_of_set_bomb)
  next
    case False
    from grid_wf_tile_ref [OF wf w]
    obtain t where t: "get_tile m (get_tile_position (bomb_of m b)) = Some t"
      by (simp add: get_tile_def)
    with nolava have nl: "special_object t \<noteq> Some SPECIAL_OBJECT_LAVA"
      by (simp add: lava_at_def)
    show ?thesis
      using False p t nl bomb_frame_step [OF f1]
      by (simp add: update_bomb_def Let_def bomb_of_set_bomb get_tile_set_bomb pos)
  qed
qed

lemma fuse_inv_step:
  assumes inv: "fuse_inv b B dt i m" and lt: "i < length (bombs m)"
    and plain: "plain_bomb B" and w: "tile_is_withing_map (get_tile_position B)"
  shows "\<exists>m' adv. update_bomb dt (bombs m ! i) m = Some (m', adv)
           \<and> fuse_inv b B dt (if adv then i + 1 else i) m'
           \<and> length (bombs m') - (if adv then i + 1 else i) < length (bombs m) - i"
proof -
  define b' where "b' = bombs m ! i"
  define rest where "rest = drop (Suc i) (bombs m)"
  from inv have wf: "grid_wf m" and d: "distinct (bombs m)"
    and rd: "\<forall>x \<in> set (drop i (bombs m)). explosion_ready m x"
    and nl: "\<not> lava_at m (get_tile_position B)"
    and tg: "if b \<in> set (drop i (bombs m)) then bomb_of m b = B else fuse_outcome b B dt m"
    by (simp_all add: fuse_inv_def)
  have dr: "drop i (bombs m) = b' # rest"
    unfolding b'_def rest_def using lt by (simp add: Cons_nth_drop_Suc)
  from d have "distinct (drop i (bombs m))" by simp
  with dr have fresh: "b' \<notin> set rest" by simp
  from rd dr have ready: "explosion_ready m b'"
    and rd_rest: "\<And>x. x \<in> set rest \<Longrightarrow> explosion_ready m x" by simp_all
  have mem: "b' \<in> set (bombs m)" unfolding b'_def using lt by simp
  have common: "fuse_inv b B dt (if adv then i + 1 else i) m'
                \<and> length (bombs m') - (if adv then i + 1 else i) < length (bombs m) - i"
    if st: "bomb_step b' m m' adv"
      and tg': "if b \<in> set rest then bomb_of m' b = B else fuse_outcome b B dt m'"
    for m' adv
  proof -
    from st have wf': "grid_wf m'"
      and bs: "bombs m' = (if adv then bombs m else remove1 b' (bombs m))"
      and so: "special_objects m' = special_objects m"
      by (simp_all add: bomb_step_def)
    have d': "distinct (bombs m')" using d by (simp add: bs)
    have dr': "drop (if adv then i + 1 else i) (bombs m') = rest"
      using drop_remove1_nth [OF d lt] by (simp add: bs rest_def b'_def)
    have len: "length (bombs m') = (if adv then length (bombs m) else length (bombs m) - 1)"
      using mem by (simp add: bs length_remove1)
    have le: "(if adv then i + 1 else i) \<le> length (bombs m')" using lt by (auto simp: len)
    have rd': "\<forall>x \<in> set rest. explosion_ready m' x"
    proof
      fix x assume x: "x \<in> set rest"
      with fresh have "x \<noteq> b'" by auto
      from bomb_step_ready [OF st rd_rest [OF x] this] show "explosion_ready m' x" .
    qed
    have nl': "\<not> lava_at m' (get_tile_position B)"
      using lava_at_cong [OF wf wf' so w] nl by simp
    have dec: "length (bombs m') - (if adv then i + 1 else i) < length (bombs m) - i"
      using lt by (auto simp: len)
    show ?thesis
      unfolding fuse_inv_def dr' using wf' d' le rd' nl' tg' dec by simp
  qed
  show ?thesis
  proof (cases "b' = b")
    case True
    with dr tg have B: "bomb_of m b = B" by simp
    from ready True have readyb: "explosion_ready m b" by simp
    let ?adv = "time_of_existence B + dt \<le> 3000"
    from update_bomb_plain [OF wf readyb, of dt] plain nl B
    obtain m' where up: "update_bomb dt b m = Some (m', ?adv)"
      and st: "bomb_step b m m' ?adv"
      and res: "if time_of_existence B + dt > 3000 then has_exploded (bomb_of m' b)
                else bomb_of m' b = B\<lparr>time_of_existence := time_of_existence B + dt\<rparr>"
      by auto
    from st have bs: "bombs m' = (if ?adv then bombs m else remove1 b (bombs m))"
      by (simp add: bomb_step_def)
    have out: "fuse_outcome b B dt m'"
    proof (cases ?adv)
      case True
      then show ?thesis using res bs mem \<open>b' = b\<close> by (simp add: fuse_outcome_def)
    next
      case False
      then show ?thesis using res bs d by (simp add: fuse_outcome_def)
    qed
    from fresh True have "b \<notin> set rest" by simp
    with out have "if b \<in> set rest then bomb_of m' b = B else fuse_outcome b B dt m'" by simp
    from common [OF st [folded True] this] up show ?thesis
      unfolding b'_def [symmetric] True by blast
  next
    case False
    from update_bomb_step [OF wf ready, of dt]
    obtain m' adv where up: "update_bomb dt b' m = Some (m', adv)"
      and st: "bomb_step b' m m' adv" by blast
    from st False have same: "bomb_of m' b = bomb_of m b"
      and bs: "bombs m' = (if adv then bombs m else remove1 b' (bombs m))"
      by (simp_all add: bomb_step_def bomb_of_def)
    have memb: "b \<in> set (bombs m') \<longleftrightarrow> b \<in> set (bombs m)"
      using False d by (simp add: bs)
    have pend: "b \<in> set (drop i (bombs m)) \<longleftrightarrow> b \<in> set rest"
      using False by (simp add: dr)
    have "if b \<in> set rest then bomb_of m' b = B else fuse_outcome b B dt m'"
      using tg by (cases "b \<in> set rest") (simp_all add: pend same memb fuse_outcome_def)
    from common [OF st this] up show ?thesis
      unfolding b'_def [symmetric] by blast
  qed
qed

section \<open>Fuse of a stationary bomb\<close>

text \<open>
  Claim C3 (amended). In the bomb update of a map update (\<^verbatim>\<open>__update_bombs\<close>), on a
  well-formed map whose bomb list holds no reference twice and only bombs standing inside
  the map with an owner among the players, the update returns, and a stationary,
  unexploded bomb of the list with the default fuse of 3000 ms and no detonator that does
  not stand on a lava tile is treated by its age alone: if its \<open>time_of_existence\<close>, after
  the \<open>dt\<close> of this update has been added, is at most 3000, the bomb is still in the list,
  unexploded and otherwise unchanged; if it strictly exceeds 3000, the bomb has exploded
  and has left the list.
\<close>

theorem stationary_bomb_fuse:
  assumes "grid_wf m" "distinct (bombs m)" "\<forall>x \<in> set (bombs m). explosion_ready m x"
    and "b \<in> set (bombs m)" "plain_bomb (bomb_of m b)"
    and "\<not> lava_at m (get_tile_position (bomb_of m b))"
  shows "\<exists>m'. update_bombs dt m = Some m'
           \<and> (if time_of_existence (bomb_of m b) + dt > 3000
               then has_exploded (bomb_of m' b) \<and> b \<notin> set (bombs m')
               else bomb_of m' b = (bomb_of m b)
                      \<lparr>time_of_existence := time_of_existence (bomb_of m b) + dt\<rparr>
                    \<and> b \<in> set (bombs m'))"
proof -
  let ?B = "bomb_of m b"
  from assms(3,4) have w: "tile_is_withing_map (get_tile_position ?B)"
    by (simp add: explosion_ready_def)
  have inv: "fuse_inv b ?B dt 0 m" using assms by (simp add: fuse_inv_def)
  from update_bombs_loop_rule [of "fuse_inv b ?B dt" 0 m dt, OF inv fuse_inv_step [OF _ _ assms(5) w]]
  obtain m' j where res: "update_bombs_loop dt 0 m = Some m'"
    and fin: "fuse_inv b ?B dt j m'" and j: "length (bombs m') \<le> j" by blast
  from fin j have "fuse_outcome b ?B dt m'" by (simp add: fuse_inv_def)
  with res show ?thesis by (simp add: update_bombs_def fuse_outcome_def)
qed

lemma example_bomb_plain: "plain_bomb (bomb_of example_map 0)"
  by (simp add: plain_bomb_def example_map_bombs example_bomb_fields BOMB_EXPLODES_IN_def)

lemma example_bomb_no_lava: "\<not> lava_at example_map (5, 5)"
proof -
  have "tile_is_withing_map (5, 5)" by (simp add: tile_is_withing_map_iff)
  from example_get_tile [OF this] show ?thesis
    by (simp add: lava_at_def example_tile_def MapTile_init_def)
qed

theorem stationary_bomb_fuse_witness:
  "grid_wf example_map \<and> distinct (bombs example_map) \<and> explosion_ready example_map 0
   \<and> plain_bomb (bomb_of example_map 0) \<and> time_of_existence (bomb_of example_map 0) = 0
   \<and> \<not> lava_at example_map (get_tile_position (bomb_of example_map 0))
   \<and> (\<exists>m'. update_bombs 3000 example_map = Some m'
         \<and> \<not> has_exploded (bomb_of m' 0) \<and> time_of_existence (bomb_of m' 0) = 3000
         \<and> 0 \<in> set (bombs m'))
   \<and> (\<exists>m'. update_bombs 3001 example_map = Some m'
         \<and> has_exploded (bomb_of m' 0) \<and> 0 \<notin> set (bombs m'))"
proof -
  have d: "distinct (bombs example_map)" and mem: "0 \<in> set (bombs example_map)"
    by (simp_all add: example_map_bombs)
  have ready: "\<forall>x \<in> set (bombs example_map). explosion_ready example_map x"
    using example_map_ready by (simp add: example_map_bombs)
  have nl: "\<not> lava_at example_map (get_tile_position (bomb_of example_map 0))"
    using example_bomb_no_lava by (simp add: example_map_bombs example_bomb_fields)
  have toe: "time_of_existence (bomb_of example_map 0) = 0"
    by (simp add: example_map_bombs example_bomb_fields)
  from stationary_bomb_fuse [OF example_map_wf d ready mem example_bomb_plain nl, of 3000]
  have a: "\<exists>m'. update_bombs 3000 example_map = Some m'
         \<and> \<not> has_exploded (bomb_of m' 0) \<and> time_of_existence (bomb_of m' 0) = 3000
         \<and> 0 \<in> set (bombs m')"
    by (auto simp: toe example_map_bombs example_bomb_fields)
  from stationary_bomb_fuse [OF example_map_wf d ready mem example_bomb_plain nl, of 3001]
  have b: "\<exists>m'. update_bombs 3001 example_map = Some m'
         \<and> has_exploded (bomb_of m' 0) \<and> 0 \<notin> set (bombs m')"
    by (simp add: toe)
  from example_map_wf d example_map_ready example_bomb_plain toe nl a b show ?thesis
    by blast
qed

text \<open>
  Claim C3 as stated fails: a stationary bomb with the default fuse and no detonator that
  stands centred on a lava tile is exploded by the bomb update at once, here at the age
  of 20 ms.
\<close>

theorem lava_bomb_explodes_before_fuse:
  "plain_bomb (bomb_of lava_map 0) \<and> bombs lava_map = [0]
   \<and> bomb_state 0 lava_map = (False, 0, BOMB_NO_MOVEMENT)
   \<and> map_option (bomb_state 0) (update_bombs 20 lava_map) = Some (True, 20, BOMB_NO_MOVEMENT)
   \<and> map_option bombs (update_bombs 20 lava_map) = Some []"
proof -
  have "plain_bomb (bomb_of lava_map 0)" by code_simp
  moreover have "bombs lava_map = [0]" by (simp add: lava_map_def example_map_def)
  moreover have "bomb_state 0 lava_map = (False, 0, BOMB_NO_MOVEMENT)" by code_simp
  moreover have "map_option (bomb_state 0) (update_bombs 20 lava_map)
                   = Some (True, 20, BOMB_NO_MOVEMENT)" by code_simp
  moreover have "map_option bombs (update_bombs 20 lava_map) = Some []" by code_simp
  ultimately show ?thesis by blast
qed

section \<open>Landing of a flying bomb\<close>

text \<open>The landing test of the flying branch holds only on a tile that is not walkable,
  holds no player and has no teleport; the test of the rolling branch holds as soon as one
  of the three is the case.\<close>

lemma flying_bomb_keeps_flying_iff:
  assumes "tile_is_walkable m t = Some w" "tile_has_teleport m t = Some tp"
  shows "flying_bomb_keeps_flying m t = Some (\<not> (w \<or> tile_has_player m t \<or> tp))"
    and "rolling_bomb_blocked m t = Some (\<not> w \<or> tile_has_player m t \<or> tp)"
  using assms
  by (auto simp: flying_bomb_keeps_flying_def rolling_bomb_blocked_def split: bool.splits)

text \<open>
  Claim C4, evaluated: a flying bomb that completes its flight over a walkable Floor tile
  on which a player stands. The claim has it fly one tile further, as the test of the
  rolling branch (which reports this tile as blocked) would; the flying branch lets it
  land there, 20 ms later it is stationary on the player's tile.
\<close>

theorem flying_bomb_lands_on_player:
  "tile_is_walkable landing_map (8, 5) = Some True
   \<and> tile_has_player landing_map (8, 5)
   \<and> get_tile_position (bomb_of landing_map 0) = (8, 5)
   \<and> bomb_state 0 landing_map = (False, 600, BOMB_FLYING)
   \<and> rolling_bomb_blocked landing_map (8, 5) = Some True
   \<and> flying_bomb_keeps_flying landing_map (8, 5) = Some False
   \<and> map_option (bomb_state 0) (update_bombs 20 landing_map)
       = Some (False, 620, BOMB_NO_MOVEMENT)"
proof -
  have "tile_is_walkable landing_map (8, 5) = Some True" by code_simp
  moreover have "tile_has_player landing_map (8, 5)" by code_simp
  moreover have "get_tile_position (bomb_of landing_map 0) = (8, 5)" by code_simp
  moreover have "bomb_state 0 landing_map = (False, 600, BOMB_FLYING)" by code_simp
  moreover have "rolling_bomb_blocked landing_map (8, 5) = Some True" by code_simp
  moreover have "flying_bomb_keeps_flying landing_map (8, 5) = Some False" by code_simp
  moreover have "map_option (bomb_state 0) (update_bombs 20 landing_map)
                   = Some (False, 620, BOMB_NO_MOVEMENT)" by code_simp
  ultimately show ?thesis by blast
qed

section \<open>Items hidden at construction\<close>

lemma random_choice_mem: "random_choice k xs = Some x \<Longrightarrow> x \<in> set xs"
  by (auto simp: random_choice_def split: if_splits)

lemma length_remove1_mem: "x \<in> set xs \<Longrightarrow> Suc (length (remove1 x xs)) = length xs"
  by (induction xs) auto

lemma place_items_fails:
  "length (snd s) < length letters \<Longrightarrow> place_items rnd i letters s = None"
proof (induction letters arbitrary: i s)
  case Nil
  then show ?case by simp
next
  case (Cons letter letters)
  show ?case
  proof (cases "random_choice (rnd i) (snd s)")
    case None
    then show ?thesis by simp
  next
    case (Some rc)
    from length_remove1_mem [OF random_choice_mem [OF Some]] Cons.prems have "length (remove1 rc (snd s)) < length letters" by simp
    with Cons.IH [of "(set_tile rc (\<lambda>t. t\<lparr>item := Some (letter_to_item letter)\<rparr>) (fst s),
                       remove1 rc (snd s))" "i + 1"] Some
    show ?thesis by simp
  qed
qed

lemma place_items_total:
  "length letters \<le> length (snd s) \<Longrightarrow> \<exists>r. place_items rnd i letters s = Some r"
proof (induction letters arbitrary: i s)
  case Nil
  then show ?case by simp
next
  case (Cons letter letters)
  from Cons.prems have ne: "snd s \<noteq> []" by auto
  then obtain rc where rc: "random_choice (rnd i) (snd s) = Some rc"
    by (simp add: random_choice_def)
  from length_remove1_mem [OF random_choice_mem [OF rc]] Cons.prems have "length letters \<le> length (remove1 rc (snd s))" by simp
  with Cons.IH [of "(set_tile rc (\<lambda>t. t\<lparr>item := Some (letter_to_item letter)\<rparr>) (fst s),
                     remove1 rc (snd s))" "i + 1"] rc
  show ?case by simp
qed

text \<open>The example data, and the same data with as many items as Block tiles.\<close>

lemma one_block_split:
  "split_on CHR '';'' (filter (\<lambda>c. c \<noteq> CHR '' '' \<and> c \<noteq> CHR 0x0A) (one_block_map_data ''fb''))
     = [''env'', ''bf'', ''fb'', ''x'' @ replicate 164 CHR ''.'']"
  by code_simp

lemma one_block_tiles:
  "fst (snd (init_tiles (''x'' @ replicate 164 CHR ''.''))) = [(0, 0)]"
  by code_simp

text \<open>
  Claim C9, evaluated: map data with one Block tile and the two items \<open>fb\<close> to hide.
  Whatever the random generator draws, the second iteration of the placement loop calls
  \<^verbatim>\<open>random.choice\<close> on the emptied list of block tiles, which raises: the map is not
  constructed, where the claim has the surplus item dropped. (\<^verbatim>\<open>spread_items\<close> leaves its
  loop when it has no tile left.)
\<close>

theorem more_items_than_blocks_fails:
  "GameMap_init_tiles rnd (one_block_map_data ''fb'') = None"
  unfolding GameMap_init_tiles_def Let_def one_block_split
  using one_block_tiles
  by (auto simp del: place_items.simps simp: place_items_fails split: prod.splits)

lemma one_item_one_block:
  "map_option snd (GameMap_init_tiles (\<lambda>_. 0) (one_block_map_data ''f'')) = Some 1"
  by code_simp

section \<open>Blocks and flames in the tile update\<close>

lemma bomb_explodes_tiles:
  assumes wf: "grid_wf m" and origin: "tile_is_withing_map (get_tile_position (bomb_of m b))"
  shows "\<exists>m'. bomb_explodes b m = Some m'
           \<and> grid_wf m'
           \<and> bombs m' = remove1 b (bombs m)
           \<and> number_of_blocks m' = number_of_blocks m
           \<and> strip_flames (tiles m') = strip_flames (tiles m)
           \<and> (\<forall>b'. get_tile_position (bomb_of m' b') = get_tile_position (bomb_of m b')
                  \<and> movement (bomb_of m' b') = movement (bomb_of m b'))
           \<and> (\<forall>r < 11. \<forall>c < 15.
                 length (flames (tiles m ! r ! c)) \<le> length (flames (tiles m' ! r ! c))
                 \<and> length (flames (tiles m' ! r ! c)) \<le> Suc (length (flames (tiles m ! r ! c))))"
proof -
  let ?X = "(explodes b (add_sound_event SOUND_EVENT_EXPLOSION m))
              \<lparr>bombs := remove1 b (bombs m), tiles := []\<rparr>"
  from bomb_explodes_total [OF assms]
  obtain m' where res: "bomb_explodes b m = Some m'"
    and other: "m'\<lparr>tiles := []\<rparr> = ?X"
    and strip: "strip_flames (tiles m') = strip_flames (tiles m)"
    and keys: "\<forall>r < 11. \<forall>c < 15.
                 map flame_key (flames (tiles m' ! r ! c)) =
                   map flame_key (flames (tiles m ! r ! c))
                   @ (if flame_footprint m (get_tile_position (bomb_of m b))
                           (bomb_flame_length (bomb_of m b)) (int c, int r)
                      then [(bomb_player (bomb_of m b), 1000)] else [])"
    by blast
  from bomb_explodes_effect [OF assms] res
  have e: "grid_wf m'" "bombs m' = remove1 b (bombs m)"
    "bomb_store m' = bomb_store (explodes b m)" by simp_all
  have "number_of_blocks m' = number_of_blocks (m'\<lparr>tiles := []\<rparr>)" by simp
  also have "\<dots> = number_of_blocks m"
    by (simp only: other) (simp add: explodes_def add_sound_event_def)
  finally have nb: "number_of_blocks m' = number_of_blocks m" .
  have bo: "bomb_of m' b' = bomb_of (explodes b m) b'" for b'
    by (simp add: bomb_of_def e(3))
  have pos: "get_tile_position (bomb_of m' b') = get_tile_position (bomb_of m b')
             \<and> movement (bomb_of m' b') = movement (bomb_of m b')" for b'
    by (simp add: bo explodes_bomb_of get_tile_position_def)
  have len: "length (flames (tiles m ! r ! c)) \<le> length (flames (tiles m' ! r ! c))
             \<and> length (flames (tiles m' ! r ! c)) \<le> Suc (length (flames (tiles m ! r ! c)))"
    if "r < 11" "c < 15" for r c
  proof -
    from keys that have "length (map flame_key (flames (tiles m' ! r ! c))) =
      length (map flame_key (flames (tiles m ! r ! c))
                   @ (if flame_footprint m (get_tile_position (bomb_of m b))
                           (bomb_flame_length (bomb_of m b)) (int c, int r)
                      then [(bomb_player (bomb_of m b), 1000)] else []))"
      by simp
    then show ?thesis by (simp split: if_splits)
  qed
  from res e(1,2) nb strip pos len show ?thesis by blast
qed

lemma explode_on_tile:
  assumes "grid_wf m" "distinct (bombs m)" "distinct bs" "set bs \<subseteq> set (bombs m)"
    and "\<forall>b \<in> set bs. get_tile_position (bomb_of m b) = p" "tile_is_withing_map p"
    and "r < 11" "c < 15"
  shows "\<exists>m'. fold_option bomb_explodes bs m = Some m'
           \<and> grid_wf m' \<and> distinct (bombs m')
           \<and> length (bombs m') + length bs = length (bombs m)
           \<and> number_of_blocks m' = number_of_blocks m
           \<and> strip_flames (tiles m') = strip_flames (tiles m)
           \<and> length (flames (tiles m ! r ! c)) \<le> length (flames (tiles m' ! r ! c))
           \<and> length (flames (tiles m' ! r ! c)) \<le> length (flames (tiles m ! r ! c)) + length bs"
  using assms(1-5)
proof (induction bs arbitrary: m)
  case Nil
  then show ?case by simp
next
  case (Cons b bs)
  from Cons.prems(5) assms(6)
  have origin: "tile_is_withing_map (get_tile_position (bomb_of m b))" by simp
  from bomb_explodes_tiles [OF Cons.prems(1) origin]
  obtain m1 where m1: "bomb_explodes b m = Some m1" "grid_wf m1"
    "bombs m1 = remove1 b (bombs m)" "number_of_blocks m1 = number_of_blocks m"
    "strip_flames (tiles m1) = strip_flames (tiles m)"
    and pos: "\<And>b'. get_tile_position (bomb_of m1 b') = get_tile_position (bomb_of m b')"
    and len: "length (flames (tiles m ! r ! c)) \<le> length (flames (tiles m1 ! r ! c))"
      "length (flames (tiles m1 ! r ! c)) \<le> Suc (length (flames (tiles m ! r ! c)))"
    using assms(7,8) by blast
  from Cons.prems have mem: "b \<in> set (bombs m)" and nb: "b \<notin> set bs" by auto
  have d1: "distinct (bombs m1)" using Cons.prems(2) by (simp add: m1(3))
  have sub1: "set bs \<subseteq> set (bombs m1)"
    using Cons.prems(2,4) nb by (auto simp: m1(3))
  have pos1: "\<forall>b' \<in> set bs. get_tile_position (bomb_of m1 b') = p"
    using Cons.prems(5) by (simp add: pos)
  from Cons.prems(3) have dbs: "distinct bs" by simp
  from Cons.IH [OF m1(2) d1 dbs sub1 pos1]
  obtain m' where m': "fold_option bomb_explodes bs m1 = Some m'" "grid_wf m'"
    "distinct (bombs m')" "length (bombs m') + length bs = length (bombs m1)"
    "number_of_blocks m' = number_of_blocks m1"
    "strip_flames (tiles m') = strip_flames (tiles m1)"
    "length (flames (tiles m1 ! r ! c)) \<le> length (flames (tiles m' ! r ! c))"
    "length (flames (tiles m' ! r ! c)) \<le> length (flames (tiles m1 ! r ! c)) + length bs"
    by blast
  from length_remove1_mem [OF mem] have "Suc (length (bombs m1)) = length (bombs m)"
    by (simp add: m1(3))
  with m1 m' len show ?case by simp
qed

lemma grid_wf_coordinates:
  "grid_wf m \<Longrightarrow> r < 11 \<Longrightarrow> c < 15 \<Longrightarrow> coordinates (tiles m ! r ! c) = (int c, int r)"
  by (auto simp: grid_wf_def MAP_SIZE_def list_all_iff)

lemma update_tile_id: "update_tile rc (\<lambda>t. t) m = m"
  by (simp add: update_tile_def)

lemma tile_at_update_tile:
  assumes "grid_wf m" "r < 11" "c < 15"
  shows "tile_at (update_tile (r, c) f m) (r, c) = f (tile_at m (r, c))"
  using update_tile_nth [of r m c r c f] grid_wf_lengths [OF assms(1)] assms(2,3)
  by (simp add: tile_at_def)


lemma tile_flame_step_total:
  assumes wf: "grid_wf m" and d: "distinct (bombs m)" and r: "r < 11" and c: "c < 15"
    and i: "i < length (flames (tile_at m (r, c)))"
  shows "\<exists>m'. tile_flame_step dt (r, c) i m = Some m'
           \<and> grid_wf m' \<and> distinct (bombs m')
           \<and> kind (tile_at m' (r, c)) = kind (tile_at m (r, c))
           \<and> to_be_destroyed (tile_at m' (r, c)) =
               (to_be_destroyed (tile_at m (r, c)) \<or> kind (tile_at m (r, c)) = TILE_BLOCK)
           \<and> number_of_blocks m' = number_of_blocks m
           \<and> 2 * length (bombs m') + length (flames (tile_at m' (r, c)))
               \<le> 2 * length (bombs m) + length (flames (tile_at m (r, c)))"
proof -
  define tile where "tile = tile_at m (r, c)"
  define f where "f = (if kind tile = TILE_BLOCK then (\<lambda>t. t\<lparr>to_be_destroyed := True\<rparr>)
                       else if kind tile = TILE_FLOOR \<and> item tile \<noteq> None
                       then (\<lambda>t. t\<lparr>item := None\<rparr>) else (\<lambda>t::MapTile. t))"
  define m1 where "m1 = update_tile (r, c) f m"
  define p where "p = (int c, int r)"
  define bs where "bs = bombs_on_tile m1 p"
  have co: "coordinates tile = p"
    using grid_wf_coordinates [OF wf r c] by (simp add: tile_def tile_at_def p_def)
  have fco: "coordinates (f t) = coordinates t" and ffl: "flames (f t) = flames t"
    and fk: "kind (f t) = kind t" for t
    by (simp_all add: f_def)
  have ftbd: "to_be_destroyed (f tile) = (to_be_destroyed tile \<or> kind tile = TILE_BLOCK)"
    by (simp add: f_def)
  have m1_eq: "m1 = (if kind tile = TILE_BLOCK
                then update_tile (r, c) (\<lambda>t. t\<lparr>to_be_destroyed := True\<rparr>) m
                else if kind tile = TILE_FLOOR \<and> item tile \<noteq> None
                then update_tile (r, c) (\<lambda>t. t\<lparr>item := None\<rparr>) m
                else m)"
    by (auto simp: m1_def f_def update_tile_id)
  have wf1: "grid_wf m1" unfolding m1_def by (rule grid_wf_update_tile [OF fco wf])
  have b1: "bombs m1 = bombs m" and n1: "number_of_blocks m1 = number_of_blocks m"
    by (simp_all add: m1_def update_tile_def)
  have t1: "tile_at m1 (r, c) = f tile"
    unfolding m1_def tile_def by (rule tile_at_update_tile [OF wf r c])
  have w: "tile_is_withing_map p" using r c by (simp add: p_def tile_is_withing_map_iff)
  have dbs: "distinct bs" "set bs \<subseteq> set (bombs m1)"
    "\<forall>b \<in> set bs. get_tile_position (bomb_of m1 b) = p"
    using d by (auto simp: bs_def bombs_on_tile_def b1)
  from explode_on_tile [OF wf1 _ dbs w r c] d b1
  obtain m2 where m2: "fold_option bomb_explodes bs m1 = Some m2" "grid_wf m2"
    "distinct (bombs m2)" "length (bombs m2) + length bs = length (bombs m1)"
    "number_of_blocks m2 = number_of_blocks m1"
    "strip_flames (tiles m2) = strip_flames (tiles m1)"
    "length (flames (tiles m1 ! r ! c)) \<le> length (flames (tiles m2 ! r ! c))"
    "length (flames (tiles m2 ! r ! c)) \<le> length (flames (tiles m1 ! r ! c)) + length bs"
    by auto
  define fs where "fs = flames (tile_at m2 (r, c))"
  have l1: "length (flames (tiles m1 ! r ! c)) = length (flames tile)"
    using t1 by (simp add: tile_at_def ffl)
  have ifs: "i < length fs" using i m2(7) by (simp add: fs_def tile_at_def l1 tile_def)
  define flame where "flame = (fs ! i)\<lparr>time_to_burnout := time_to_burnout (fs ! i) - dt\<rparr>"
  define g where "g = (\<lambda>t::MapTile. t\<lparr>flames := (if time_to_burnout flame < 0
                                                       then take i fs @ drop (Suc i) fs
                                                       else fs[i := flame])\<rparr>)"
  define m' where "m' = update_tile (r, c) g m2"
  have res: "tile_flame_step dt (r, c) i m = Some m'"
    unfolding tile_flame_step_def Let_def tile_def [symmetric] m1_eq [symmetric] co
      bs_def [symmetric] m2(1) option.case fs_def [symmetric]
    using ifs by (simp add: m'_def g_def flame_def)
  have wf': "grid_wf m'" unfolding m'_def
    by (rule grid_wf_update_tile [OF _ m2(2)]) (simp add: g_def)
  have b': "bombs m' = bombs m2" and n': "number_of_blocks m' = number_of_blocks m2"
    by (simp_all add: m'_def update_tile_def)
  have t': "tile_at m' (r, c) = g (tile_at m2 (r, c))"
    unfolding m'_def by (rule tile_at_update_tile [OF m2(2) r c])
  from grid_wf_lengths [OF wf1] r c
  have rng: "r < length (tiles m1)" "c < length (tiles m1 ! r)" by simp_all
  from strip_flames_kind [OF m2(6) rng] t1
  have k2: "kind (tile_at m2 (r, c)) = kind tile"
    and tb2: "to_be_destroyed (tile_at m2 (r, c)) = to_be_destroyed (f tile)"
    by (simp_all add: tile_at_def fk)
  have lg: "length (flames (g t)) \<le> length fs" for t
    using ifs by (simp add: g_def)
  have "2 * length (bombs m') + length (flames (tile_at m' (r, c)))
          \<le> 2 * length (bombs m2) + length fs"
    using lg by (simp add: b' t')
  also have "\<dots> \<le> 2 * length (bombs m) + length (flames tile)"
    using m2(4,8) by (simp add: fs_def tile_at_def l1 b1)
  finally have meas: "2 * length (bombs m') + length (flames (tile_at m' (r, c)))
          \<le> 2 * length (bombs m) + length (flames (tile_at m (r, c)))"
    by (simp add: tile_def)
  have "kind (tile_at m' (r, c)) = kind (tile_at m (r, c))"
    by (simp add: t' g_def k2 tile_def)
  moreover have "to_be_destroyed (tile_at m' (r, c)) =
               (to_be_destroyed (tile_at m (r, c)) \<or> kind (tile_at m (r, c)) = TILE_BLOCK)"
    using ftbd by (simp add: t' g_def tb2 tile_def)
  moreover have "number_of_blocks m' = number_of_blocks m"
    by (simp add: n' m2(5) n1)
  moreover have "distinct (bombs m')" using m2(3) by (simp add: b')
  ultimately show ?thesis using res wf' meas by blast
qed

lemma tile_flames_loop_rule:
  assumes inv: "I i m"
    and step: "\<And>i m. I i m \<Longrightarrow> i < length (flames (tile_at m rc)) \<Longrightarrow>
                 \<exists>m'. tile_flame_step dt rc i m = Some m' \<and> I (i + 1) m'
                    \<and> 2 * length (bombs m') + length (flames (tile_at m' rc))
                        \<le> 2 * length (bombs m) + length (flames (tile_at m rc))"
  shows "\<exists>m' j. tile_flames_loop dt rc i m = Some m' \<and> I j m'
           \<and> length (flames (tile_at m' rc)) \<le> j"
  using inv
proof (induction "2 * length (bombs m) + length (flames (tile_at m rc)) - i"
    arbitrary: i m rule: less_induct)
  case less
  show ?case
  proof (cases "i < length (flames (tile_at m rc))")
    case False
    then show ?thesis
      using less.prems by (subst tile_flames_loop.simps) auto
  next
    case True
    from step [OF less.prems True]
    obtain m' where s: "tile_flame_step dt rc i m = Some m'"
      and i': "I (i + 1) m'"
      and le: "2 * length (bombs m') + length (flames (tile_at m' rc))
                        \<le> 2 * length (bombs m) + length (flames (tile_at m rc))"
      by blast
    from le True
    have dec: "2 * length (bombs m') + length (flames (tile_at m' rc)) - (i + 1)
               < 2 * length (bombs m) + length (flames (tile_at m rc)) - i"
      by simp
    from less.hyps [OF dec i']
    show ?thesis using True s by (subst tile_flames_loop.simps) simp
  qed
qed

lemma block_flames_inv_step:
  assumes inv: "block_flames_inv (r, c) N i m" and r: "r < 11" and c: "c < 15"
    and i: "i < length (flames (tile_at m (r, c)))"
  shows "\<exists>m'. tile_flame_step dt (r, c) i m = Some m' \<and> block_flames_inv (r, c) N (i + 1) m'
           \<and> 2 * length (bombs m') + length (flames (tile_at m' (r, c)))
               \<le> 2 * length (bombs m) + length (flames (tile_at m (r, c)))"
proof -
  from inv have wf: "grid_wf m" and d: "distinct (bombs m)"
    and k: "kind (tile_at m (r, c)) = TILE_BLOCK" and n: "number_of_blocks m = N"
    by (simp_all add: block_flames_inv_def)
  from tile_flame_step_total [OF wf d r c i, of dt] k n
  show ?thesis by (auto simp: block_flames_inv_def)
qed

lemma tile_has_flame_wf:
  assumes "grid_wf m" "r < 11" "c < 15"
  shows "tile_has_flame m (coordinates (tile_at m (r, c))) = Some (flames (tile_at m (r, c)) \<noteq> [])"
proof -
  have co: "coordinates (tile_at m (r, c)) = (int c, int r)"
    using grid_wf_coordinates [OF assms] by (simp add: tile_at_def)
  have w: "tile_is_withing_map (int c, int r)"
    using assms(2,3) by (simp add: tile_is_withing_map_iff)
  from grid_wf_tile_ref [OF assms(1) w]
  have "get_tile m (int c, int r) = Some (tile_at m (r, c))"
    by (simp add: get_tile_def)
  then show ?thesis using w by (cases "flames (tile_at m (r, c))") (simp_all add: tile_has_flame_def co)
qed

text \<open>
  Claim C5. When the map update handles a Block tile (on a well-formed map whose bomb list
  holds no reference twice), the handling returns, and: if the tile carries flame, it is
  marked \<open>to_be_destroyed\<close> afterwards and is still a Block, and the block counter is as
  before, whatever explodes and burns out meanwhile; if it carries no flame and is marked
  (its last flame has burnt out in an earlier update), it becomes Floor, the mark is
  cleared and the block counter decreases by exactly 1; if it carries no flame and is
  not marked, nothing changes.
\<close>

theorem block_destroyed_after_flames:
  assumes "grid_wf m" "distinct (bombs m)" "r < 11" "c < 15"
    and "kind (tile_at m (r, c)) = TILE_BLOCK"
  shows "\<exists>m'. update_map_tile dt (r, c) m = Some m'
           \<and> (if flames (tile_at m (r, c)) \<noteq> []
               then kind (tile_at m' (r, c)) = TILE_BLOCK \<and> to_be_destroyed (tile_at m' (r, c))
                    \<and> number_of_blocks m' = number_of_blocks m
               else if to_be_destroyed (tile_at m (r, c))
               then kind (tile_at m' (r, c)) = TILE_FLOOR
                    \<and> \<not> to_be_destroyed (tile_at m' (r, c))
                    \<and> number_of_blocks m' = number_of_blocks m - 1
               else m' = m)"
proof (cases "flames (tile_at m (r, c)) \<noteq> []")
  case True
  have db: "tile_destroy_block (r, c) m = Some m"
    using True by (simp add: tile_destroy_block_def Let_def tile_has_flame_wf [OF assms(1,3,4)])
  have inv: "block_flames_inv (r, c) (number_of_blocks m) 0 m"
    using assms True by (simp add: block_flames_inv_def)
  from tile_flames_loop_rule [of "block_flames_inv (r, c) (number_of_blocks m)" 0 m "(r, c)" dt,
      OF inv block_flames_inv_step [OF _ assms(3,4)]]
  obtain m' j where res: "tile_flames_loop dt (r, c) 0 m = Some m'"
    and fin: "block_flames_inv (r, c) (number_of_blocks m) j m'"
    and j: "length (flames (tile_at m' (r, c))) \<le> j" by blast
  from fin j have "kind (tile_at m' (r, c)) = TILE_BLOCK \<and> to_be_destroyed (tile_at m' (r, c))
                    \<and> number_of_blocks m' = number_of_blocks m"
    by (cases "j = 0") (simp_all add: block_flames_inv_def)
  with res db True show ?thesis by (simp add: update_map_tile_def)
next
  case False
  then have nf: "flames (tile_at m (r, c)) = []" by simp
  show ?thesis
  proof (cases "to_be_destroyed (tile_at m (r, c))")
    case True
    let ?m1 = "(update_tile (r, c) (\<lambda>t. t\<lparr>kind := TILE_FLOOR, to_be_destroyed := False\<rparr>) m)
                  \<lparr>number_of_blocks := number_of_blocks m - 1\<rparr>"
    have db: "tile_destroy_block (r, c) m = Some ?m1"
      using True nf assms(5)
      by (simp add: tile_destroy_block_def Let_def tile_has_flame_wf [OF assms(1,3,4)])
    have t1: "tile_at ?m1 (r, c) = (tile_at m (r, c))\<lparr>kind := TILE_FLOOR, to_be_destroyed := False\<rparr>"
      using tile_at_update_tile [OF assms(1,3,4)] by (simp add: tile_at_def)
    have "tile_flames_loop dt (r, c) 0 ?m1 = Some ?m1"
      by (subst tile_flames_loop.simps) (simp add: t1 nf)
    then show ?thesis using nf True t1 by (simp add: update_map_tile_def db)
  next
    case False
    have db: "tile_destroy_block (r, c) m = Some m"
      using False by (simp add: tile_destroy_block_def Let_def)
    have "tile_flames_loop dt (r, c) 0 m = Some m"
      by (subst tile_flames_loop.simps) (simp add: nf)
    then show ?thesis using nf False by (simp add: update_map_tile_def db)
  qed
qed

lemma burning_map_wf: "grid_wf burning_map"
  by code_simp

lemma burnt_map_wf: "grid_wf burnt_map"
  by code_simp

theorem block_destroyed_after_flames_witness:
  "grid_wf burning_map \<and> distinct (bombs burning_map)
   \<and> tile_state (5, 3) burning_map = (TILE_BLOCK, False, [1000])
   \<and> number_of_blocks burning_map = 1
   \<and> (\<exists>m'. update_map_tile 600 (5, 3) burning_map = Some m'
          \<and> kind (tile_at m' (5, 3)) = TILE_BLOCK \<and> to_be_destroyed (tile_at m' (5, 3))
          \<and> number_of_blocks m' = 1)
   \<and> grid_wf burnt_map \<and> distinct (bombs burnt_map)
   \<and> tile_state (5, 3) burnt_map = (TILE_BLOCK, True, [])
   \<and> number_of_blocks burnt_map = 1
   \<and> (\<exists>m'. update_map_tile 600 (5, 3) burnt_map = Some m'
          \<and> kind (tile_at m' (5, 3)) = TILE_FLOOR \<and> \<not> to_be_destroyed (tile_at m' (5, 3))
          \<and> number_of_blocks m' = 0)
   \<and> map_option (tile_state (5, 3)) (update_tiles 600 burning_map)
        = Some (TILE_BLOCK, True, [400])
   \<and> map_option (tile_state (5, 3)) (Option.bind (update_tiles 600 burning_map) (update_tiles 600))
        = Some (TILE_BLOCK, True, [])
   \<and> map_option (tile_state (5, 3))
        (Option.bind (Option.bind (update_tiles 600 burning_map) (update_tiles 600))
           (update_tiles 600))
        = Some (TILE_FLOOR, False, [])"
proof -
  have s1: "tile_state (5, 3) burning_map = (TILE_BLOCK, False, [1000])"
    "number_of_blocks burning_map = 1" "distinct (bombs burning_map)"
    by code_simp+
  have s2: "tile_state (5, 3) burnt_map = (TILE_BLOCK, True, [])"
    "number_of_blocks burnt_map = 1" "distinct (bombs burnt_map)"
    by code_simp+
  from s1(1) have k1: "kind (tile_at burning_map (5, 3)) = TILE_BLOCK"
    and f1: "flames (tile_at burning_map (5, 3)) \<noteq> []"
    by (auto simp: tile_state_def)
  from s2(1) have k2: "kind (tile_at burnt_map (5, 3)) = TILE_BLOCK"
    and f2: "flames (tile_at burnt_map (5, 3)) = []"
    and tb2: "to_be_destroyed (tile_at burnt_map (5, 3))"
    by (auto simp: tile_state_def)
  from block_destroyed_after_flames [OF burning_map_wf s1(3) _ _ k1, of 600] f1 s1(2)
  have a: "\<exists>m'. update_map_tile 600 (5, 3) burning_map = Some m'
          \<and> kind (tile_at m' (5, 3)) = TILE_BLOCK \<and> to_be_destroyed (tile_at m' (5, 3))
          \<and> number_of_blocks m' = 1"
    by simp
  from block_destroyed_after_flames [OF burnt_map_wf s2(3) _ _ k2, of 600] f2 tb2 s2(2)
  have b: "\<exists>m'. update_map_tile 600 (5, 3) burnt_map = Some m'
          \<and> kind (tile_at m' (5, 3)) = TILE_FLOOR \<and> \<not> to_be_destroyed (tile_at m' (5, 3))
          \<and> number_of_blocks m' = 0"
    by simp
  have e1: "map_option (tile_state (5, 3)) (update_tiles 600 burning_map)
        = Some (TILE_BLOCK, True, [400])" by code_simp
  have e2: "map_option (tile_state (5, 3))
        (Option.bind (update_tiles 600 burning_map) (update_tiles 600))
        = Some (TILE_BLOCK, True, [])" by code_simp
  have e3: "map_option (tile_state (5, 3))
        (Option.bind (Option.bind (update_tiles 600 burning_map) (update_tiles 600))
           (update_tiles 600))
        = Some (TILE_FLOOR, False, [])" by code_simp
  from burning_map_wf burnt_map_wf s1 s2 a b e1 e2 e3 show ?thesis by blast
qed

section \<open>One credit per bomb on every path\<close>






lemma pop_detonator_bomb_found:
  "pop_detonator_bomb m bs = (Some b, rest) \<Longrightarrow>
     b \<in> set bs \<and> has_detonator (bomb_of m b) \<and> \<not> has_exploded (bomb_of m b)
     \<and> movement (bomb_of m b) \<noteq> BOMB_FLYING"
  by (induction bs) (auto split: if_splits)








section \<open>Refused bomb placement\<close>

lemma player_of_set_player:
  "pr < length (players m) \<Longrightarrow> player_of (set_player pr f m) pr = f (player_of m pr)"
  by (simp add: player_of_def set_player_def)

lemma set_player_fields:
  "tiles (set_player pr f m) = tiles m" "bombs (set_player pr f m) = bombs m"
  "bomb_store (set_player pr f m) = bomb_store m"
  "length (players (set_player pr f m)) = length (players m)"
  "map_state (set_player pr f m) = map_state m"
  by (simp_all add: set_player_def)

lemma keeps_bombs_refl: "keeps_bombs pr m m"
  by (simp add: keeps_bombs_def)

lemma keeps_bombs_trans: "keeps_bombs pr m m1 \<Longrightarrow> keeps_bombs pr m1 m2 \<Longrightarrow> keeps_bombs pr m m2"
  by (simp add: keeps_bombs_def)

lemma keeps_bombs_set_player:
  assumes "bombs_left (f (player_of m pr)) = bombs_left (player_of m pr)"
    and "number (f (player_of m pr)) = number (player_of m pr)"
  shows "keeps_bombs pr m (set_player pr f m)"
proof (cases "pr < length (players m)")
  case True
  then show ?thesis using assms
    by (simp add: keeps_bombs_def set_player_fields player_of_set_player)
next
  case False
  then have "set_player pr f m = m" by (simp add: set_player_def list_update_beyond)
  then show ?thesis by (simp add: keeps_bombs_refl)
qed

lemma keeps_bombs_sound: "keeps_bombs pr m (add_sound_event e m)"
  by (simp add: keeps_bombs_def add_sound_event_def player_of_def)

lemma keeps_bombs_set_bomb: "keeps_bombs pr m (set_bomb b f m)"
  by (simp add: keeps_bombs_def set_bomb_def player_of_def)

lemma keeps_bombs_kick_box: "keeps_bombs pr m (manage_kick_box pr c m)"
proof -
  have a: "keeps_bombs pr m (add_sound_event e (set_bomb b f m))" for e b f
    by (rule keeps_bombs_trans [OF keeps_bombs_set_bomb keeps_bombs_sound])
  show ?thesis
    by (simp add: manage_kick_box_def Let_def a keeps_bombs_refl split: option.splits)
qed

lemma keeps_bombs_wf: "keeps_bombs pr m m' \<Longrightarrow> grid_wf m \<Longrightarrow> grid_wf m'"
  by (simp add: keeps_bombs_def grid_wf_tiles_cong [of m' m])

lemma tile_is_walkable_cong:
  assumes "tiles m' = tiles m" "bombs m' = bombs m" "bomb_store m' = bomb_store m"
  shows "tile_is_walkable m' = tile_is_walkable m" "tile_has_bomb m' = tile_has_bomb m"
    "tile_has_teleport m' = tile_has_teleport m"
  by (rule ext; simp add: tile_is_walkable_def tile_has_bomb_def bomb_on_tile_def
      bombs_on_tile_def bomb_of_def get_tile_def tile_at_def tile_has_teleport_def assms
      cong: map_option_cong)+

lemma get_position_collision_type_total:
  assumes "grid_wf m"
  shows "\<exists>c. get_position_collision_type m q = Some c"
proof -
  have w: "\<exists>w. tile_is_walkable m q' = Some w" for q'
    by (rule tile_is_walkable_total [OF assms])
  have h: "\<exists>c. collision_horizontal m q = Some c"
    using w by (auto simp: collision_horizontal_def Let_def)
  let ?t = "position_to_tile q"
  from w [of ?t] w [of "(fst ?t, snd ?t - 1)"] w [of "(fst ?t, snd ?t + 1)"] h
  show ?thesis
    by (auto simp: get_position_collision_type_def Let_def split: bool.splits)
qed

text \<open>The resolution of collisions returns and changes nothing but the position of the
  player.\<close>

lemma resolve_collisions_total:
  assumes "grid_wf m"
  shows "\<exists>m' c. resolve_collisions pr d pp m = Some (m', c)
           \<and> (\<exists>f. m' = set_player pr f m \<and> (\<forall>p. \<exists>pos. f p = p\<lparr>position := pos\<rparr>))"
proof -
  from get_position_collision_type_total [OF assms]
  obtain ct where ct: "get_position_collision_type m (position (player_of m pr)) = Some ct"
    by blast
  have id: "m = set_player pr (\<lambda>p. p) m" by (simp add: set_player_def)
  have i0: "\<exists>f. m = set_player pr f m \<and> (\<forall>p. \<exists>pos. f p = p\<lparr>position := pos\<rparr>)"
  proof (intro exI conjI allI)
    show "m = set_player pr (\<lambda>p. p) m" by (rule id)
    show "p = p\<lparr>position := position p\<rparr>" for p :: Player by simp
  qed
  have i1: "\<exists>f. set_player pr (\<lambda>p. p\<lparr>position := g p\<rparr>) m = set_player pr f m
                \<and> (\<forall>p. \<exists>pos. f p = p\<lparr>position := pos\<rparr>)" for g
    by (intro exI conjI allI) (rule refl)+
  show ?thesis
    unfolding resolve_collisions_def ct option.case
    using i0 i1 by (auto split: option.splits)
qed

lemmas ACTION_defs = ACTION_UP_def ACTION_RIGHT_def ACTION_DOWN_def ACTION_LEFT_def
  ACTION_BOMB_def ACTION_SPECIAL_def ACTION_MENU_def ACTION_BOMB_DOUBLE_def

lemma move_player_fields:
  assumes "move_player a d p = Some p'"
  shows "bombs_left p' = bombs_left p" "number p' = number p"
    "player_disease p' = player_disease p" "putting_bomb p' = putting_bomb p"
    "putting_multibomb p' = putting_multibomb p" "throwing p' = throwing p"
    "a \<in> {ACTION_UP, ACTION_RIGHT, ACTION_DOWN, ACTION_LEFT}"
  using assms by (auto simp: move_player_def split: if_splits)

text \<open>One item of the input list, handled for a player with no bomb left: unless it is
  the special action, the item changes neither the bombs nor \<open>bombs_left\<close>, and no bomb
  is to be put.\<close>

lemma input_action_step_no_bombs_left:
  assumes pr: "pr < length (players x)" and bl: "bombs_left (player_of x pr) < 1"
    and np: "\<not> putting_bomb (player_of x pr)"
    and ns: "fst it = number (player_of x pr) \<longrightarrow> snd it \<noteq> ACTION_SPECIAL"
  shows "\<exists>fl' x'. input_action_step pr d it (fl, x) = Some (fl', x')
           \<and> keeps_bombs pr x x' \<and> \<not> putting_bomb (player_of x' pr)"
proof (cases "fst it = number (player_of x pr)")
  case False
  then show ?thesis using np by (simp add: input_action_step_def keeps_bombs_refl)
next
  case True
  define a where "a = (if player_disease (player_of x pr) = DISEASE_REVERSE_CONTROLS
                then get_opposite_action (snd it) else snd it)"
  from ns True have a: "a \<noteq> ACTION_SPECIAL"
    by (auto simp: a_def get_opposite_action_def ACTION_defs)
  define s1 where "s1 = (if \<not> moved fl
                   then (case move_player a d (player_of x pr) of
                           None \<Rightarrow> (fl, x)
                         | Some p \<Rightarrow> (fl\<lparr>moved := True\<rparr>, set_player pr (\<lambda>_. p) x))
                   else (fl, x))"
  have k1: "keeps_bombs pr x (snd s1) \<and> \<not> putting_bomb (player_of (snd s1) pr)"
  proof (cases "\<not> moved fl \<and> move_player a d (player_of x pr) \<noteq> None")
    case False
    then show ?thesis using np by (auto simp: s1_def keeps_bombs_refl)
  next
    case True
    then obtain p where p: "move_player a d (player_of x pr) = Some p" by auto
    from move_player_fields [OF p] pr np True p show ?thesis
      by (simp add: s1_def keeps_bombs_def set_player_fields player_of_set_player)
  qed
  define s2 where "s2 = (if a = ACTION_BOMB
                   then ((fst s1)\<lparr>bomb_was_pressed := True\<rparr>,
                         (let self = player_of (snd s1) pr
                          in if \<not> wait_for_bomb_release self \<and> bombs_left self \<ge> 1
                                \<and> \<not> tile_has_bomb (snd s1) (position_to_tile (position self))
                                \<and> \<not> player_disease self = DISEASE_NO_BOMB
                             then set_player pr (\<lambda>p. p\<lparr>putting_bomb := True\<rparr>) (snd s1)
                             else snd s1))
                   else s1)"
  have s2: "snd s2 = snd s1"
    using k1 bl by (simp add: s2_def keeps_bombs_def Let_def)
  define s3 where "s3 = (if a = ACTION_BOMB_DOUBLE
                   then (fst s2,
                         (let self = player_of (snd s2) pr
                          in if has_throwing_glove self
                             then set_player pr (\<lambda>p. p\<lparr>throwing := True\<rparr>) (snd s2)
                             else if has_multibomb self
                             then set_player pr (\<lambda>p. p\<lparr>putting_multibomb := True\<rparr>) (snd s2)
                             else snd s2))
                   else s2)"
  have pr1: "pr < length (players (snd s1))" using k1 pr by (simp add: keeps_bombs_def)
  have k3: "keeps_bombs pr (snd s1) (snd s3) \<and> \<not> putting_bomb (player_of (snd s3) pr)"
    using k1 pr1
    by (simp add: s3_def s2 Let_def keeps_bombs_def set_player_fields player_of_set_player)
  have "input_action_step pr d it (fl, x)
          = (if a = ACTION_SPECIAL then special_action pr s3 else Some s3)"
    unfolding input_action_step_def s3_def s2_def s1_def a_def Let_def fst_conv snd_conv
    by (simp only: True simp_thms if_False)
  with a have "input_action_step pr d it (fl, x) = Some s3" by (simp only: if_False)
  moreover from k1 k3 have "keeps_bombs pr x (snd s3)" by (blast intro: keeps_bombs_trans)
  ultimately show ?thesis using k3 by (cases s3) auto
qed

text \<open>One item of the input list, handled for a player who stands on a bomb: unless it
  is a movement, the double bomb action or the special action, the item changes nothing
  in the map.\<close>

lemma input_action_step_on_bomb:
  assumes tb: "tile_has_bomb x (position_to_tile (position (player_of x pr)))"
    and na: "fst it = number (player_of x pr) \<longrightarrow>
               snd it \<notin> {ACTION_UP, ACTION_RIGHT, ACTION_DOWN, ACTION_LEFT,
                          ACTION_BOMB_DOUBLE, ACTION_SPECIAL}"
  shows "\<exists>fl'. input_action_step pr d it (fl, x) = Some (fl', x) \<and> moved fl' = moved fl"
proof (cases "fst it = number (player_of x pr)")
  case False
  then show ?thesis by (simp add: input_action_step_def)
next
  case True
  define a where "a = (if player_disease (player_of x pr) = DISEASE_REVERSE_CONTROLS
                then get_opposite_action (snd it) else snd it)"
  from na True have a: "a \<notin> {ACTION_UP, ACTION_RIGHT, ACTION_DOWN, ACTION_LEFT,
                          ACTION_BOMB_DOUBLE, ACTION_SPECIAL}"
    by (auto simp: a_def get_opposite_action_def ACTION_defs)
  then have mv: "move_player a d p = None" for p
    by (auto simp: move_player_def)
  define s1 where "s1 = (if \<not> moved fl
                   then (case move_player a d (player_of x pr) of
                           None \<Rightarrow> (fl, x)
                         | Some p \<Rightarrow> (fl\<lparr>moved := True\<rparr>, set_player pr (\<lambda>_. p) x))
                   else (fl, x))"
  have s1: "s1 = (fl, x)" by (simp add: s1_def mv)
  define s2 where "s2 = (if a = ACTION_BOMB
                   then ((fst s1)\<lparr>bomb_was_pressed := True\<rparr>,
                         (let self = player_of (snd s1) pr
                          in if \<not> wait_for_bomb_release self \<and> bombs_left self \<ge> 1
                                \<and> \<not> tile_has_bomb (snd s1) (position_to_tile (position self))
                                \<and> \<not> player_disease self = DISEASE_NO_BOMB
                             then set_player pr (\<lambda>p. p\<lparr>putting_bomb := True\<rparr>) (snd s1)
                             else snd s1))
                   else s1)"
  have s2: "snd s2 = x" "moved (fst s2) = moved fl"
    using tb by (simp_all add: s2_def s1 Let_def)
  define s3 where "s3 = (if a = ACTION_BOMB_DOUBLE
                   then (fst s2,
                         (let self = player_of (snd s2) pr
                          in if has_throwing_glove self
                             then set_player pr (\<lambda>p. p\<lparr>throwing := True\<rparr>) (snd s2)
                             else if has_multibomb self
                             then set_player pr (\<lambda>p. p\<lparr>putting_multibomb := True\<rparr>) (snd s2)
                             else snd s2))
                   else s2)"
  have s3: "s3 = s2" using a by (simp add: s3_def)
  have "input_action_step pr d it (fl, x)
          = (if a = ACTION_SPECIAL then special_action pr s3 else Some s3)"
    unfolding input_action_step_def s3_def s2_def s1_def a_def Let_def fst_conv snd_conv
    by (simp only: True simp_thms if_False)
  with a have "input_action_step pr d it (fl, x) = Some s2" by (simp add: s3)
  with s2 show ?thesis by (cases s2) auto
qed

text \<open>\<^verbatim>\<open>__manage_input_actions\<close> in the two situations.\<close>

lemma manage_input_actions_no_bombs_left:
  assumes pr: "pr < length (players x)" and bl: "bombs_left (player_of x pr) < 1"
    and np: "\<not> putting_bomb (player_of x pr)"
    and ns: "\<forall>it \<in> set acts. fst it = number (player_of x pr) \<longrightarrow> snd it \<noteq> ACTION_SPECIAL"
  shows "\<exists>x'. manage_input_actions pr acts d x = Some x'
           \<and> keeps_bombs pr x x' \<and> \<not> putting_bomb (player_of x' pr)"
proof -
  let ?I = "\<lambda>s. keeps_bombs pr x (snd s) \<and> \<not> putting_bomb (player_of (snd s) pr)"
  let ?fl0 = "\<lparr>moved = False, detonator_triggered = False, special_was_pressed = False,
               bomb_was_pressed = False\<rparr>"
  have step: "\<exists>s'. input_action_step pr d it s = Some s' \<and> ?I s'"
    if "it \<in> set acts" "?I s" for it s
  proof -
    from that(2) have k: "keeps_bombs pr x (snd s)"
      and np': "\<not> putting_bomb (player_of (snd s) pr)" by simp_all
    from k pr bl have pr': "pr < length (players (snd s))"
      and bl': "bombs_left (player_of (snd s) pr) < 1"
      and nm: "number (player_of (snd s) pr) = number (player_of x pr)"
      by (simp_all add: keeps_bombs_def)
    from ns that(1) nm
    have ns': "fst it = number (player_of (snd s) pr) \<longrightarrow> snd it \<noteq> ACTION_SPECIAL" by simp
    from input_action_step_no_bombs_left [OF pr' bl' np' ns', of d "fst s"]
    obtain fl' x' where "input_action_step pr d it (fst s, snd s) = Some (fl', x')"
      "keeps_bombs pr (snd s) x'" "\<not> putting_bomb (player_of x' pr)" by blast
    with k show ?thesis by (auto intro: keeps_bombs_trans)
  qed
  have "?I (?fl0, x)" using np by (simp add: keeps_bombs_refl)
  from fold_option_total [of acts ?I "input_action_step pr d", OF step this]
  obtain s' where f: "fold_option (input_action_step pr d) acts (?fl0, x) = Some s'"
    and i: "?I s'" by blast
  obtain fl1 x1 where s': "s' = (fl1, x1)" by (cases s')
  from i s' have k1: "keeps_bombs pr x x1" and np1: "\<not> putting_bomb (player_of x1 pr)"
    by simp_all
  define x2 where "x2 = (if moved fl1 then add_sound_event SOUND_EVENT_WALK x1 else x1)"
  define x3 where "x3 = (if \<not> special_was_pressed fl1
                     then set_player pr (\<lambda>p. p\<lparr>wait_for_special_release := False\<rparr>) x2
                     else x2)"
  define x4 where "x4 = (if \<not> bomb_was_pressed fl1
                    then set_player pr (\<lambda>p. p\<lparr>wait_for_bomb_release := False\<rparr>) x3
                    else x3)"
  have pr1: "pr < length (players x1)" using k1 pr by (simp add: keeps_bombs_def)
  have k4: "keeps_bombs pr x1 x4 \<and> \<not> putting_bomb (player_of x4 pr)"
    using np1 pr1
    by (simp add: x4_def x3_def x2_def keeps_bombs_def set_player_fields player_of_set_player
        add_sound_event_def player_of_def set_player_def)
  have "manage_input_actions pr acts d x = Some x4"
    by (simp add: manage_input_actions_def f s' x4_def x3_def x2_def Let_def)
  with k1 k4 show ?thesis by (blast intro: keeps_bombs_trans)
qed

lemma manage_input_actions_on_bomb:
  assumes tb: "tile_has_bomb x (position_to_tile (position (player_of x pr)))"
    and na: "\<forall>it \<in> set acts. fst it = number (player_of x pr) \<longrightarrow>
               snd it \<notin> {ACTION_UP, ACTION_RIGHT, ACTION_DOWN, ACTION_LEFT,
                          ACTION_BOMB_DOUBLE, ACTION_SPECIAL}"
  shows "\<exists>f. manage_input_actions pr acts d x = Some (set_player pr f x)
           \<and> (\<forall>p. position (f p) = position p \<and> bombs_left (f p) = bombs_left p
                    \<and> putting_bomb (f p) = putting_bomb p
                    \<and> putting_multibomb (f p) = putting_multibomb p
                    \<and> throwing (f p) = throwing p \<and> state (f p) = state p
                    \<and> player_disease (f p) = player_disease p
                    \<and> disease_time_left (f p) = disease_time_left p
                    \<and> number (f p) = number p)"
proof -
  let ?I = "\<lambda>s. snd s = x \<and> \<not> moved (fst s)"
  let ?fl0 = "\<lparr>moved = False, detonator_triggered = False, special_was_pressed = False,
               bomb_was_pressed = False\<rparr>"
  have step: "\<exists>s'. input_action_step pr d it s = Some s' \<and> ?I s'"
    if "it \<in> set acts" "?I s" for it s
  proof -
    from na that(1)
    have na': "fst it = number (player_of x pr) \<longrightarrow>
               snd it \<notin> {ACTION_UP, ACTION_RIGHT, ACTION_DOWN, ACTION_LEFT,
                          ACTION_BOMB_DOUBLE, ACTION_SPECIAL}" by blast
    from input_action_step_on_bomb [OF tb na', of d "fst s"] that(2)
    show ?thesis by (cases s) auto
  qed
  have "?I (?fl0, x)" by simp
  from fold_option_total [of acts ?I "input_action_step pr d", OF step this]
  obtain s' where f: "fold_option (input_action_step pr d) acts (?fl0, x) = Some s'"
    and i: "?I s'" by blast
  obtain fl1 where s': "s' = (fl1, x)" and nm: "\<not> moved fl1" using i by (cases s') auto
  define g where "g = (\<lambda>p::Player. if \<not> special_was_pressed fl1
                          then p\<lparr>wait_for_special_release := False\<rparr> else p)"
  define h where "h = (\<lambda>p::Player. if \<not> bomb_was_pressed fl1
                          then p\<lparr>wait_for_bomb_release := False\<rparr> else p)"
  have comp: "set_player pr h (set_player pr g x) = set_player pr (\<lambda>p. h (g p)) x"
    by (cases "pr < length (players x)") (simp_all add: set_player_def list_update_beyond)
  have id: "set_player pr (\<lambda>p. p) y = y" for y by (simp add: set_player_def)
  have "manage_input_actions pr acts d x = Some (set_player pr h (set_player pr g x))"
    using nm by (auto simp: manage_input_actions_def f s' Let_def g_def h_def id)
  then have "manage_input_actions pr acts d x = Some (set_player pr (\<lambda>p. h (g p)) x)"
    by (simp only: comp)
  moreover have "position (h (g p)) = position p \<and> bombs_left (h (g p)) = bombs_left p
                    \<and> putting_bomb (h (g p)) = putting_bomb p
                    \<and> putting_multibomb (h (g p)) = putting_multibomb p
                    \<and> throwing (h (g p)) = throwing p \<and> state (h (g p)) = state p
                    \<and> player_disease (h (g p)) = player_disease p
                    \<and> disease_time_left (h (g p)) = disease_time_left p
                    \<and> number (h (g p)) = number p" for p
    by (simp add: g_def h_def)
  ultimately show ?thesis by blast
qed

lemma set_player_comp:
  "set_player pr h (set_player pr g x) = set_player pr (\<lambda>p. h (g p)) x"
  by (cases "pr < length (players x)") (simp_all add: set_player_def list_update_beyond)

lemma set_player_id: "set_player pr (\<lambda>p. p) y = y"
  by (simp add: set_player_def)

text \<open>The resolution of collisions returns, and touches only the position of the player
  and the flag \<open>wait_for_tile_transition\<close>.\<close>

lemma react_collide_total:
  assumes wf: "grid_wf m2"
  shows "\<exists>f ct col. react_collide pr d pp os m2 = Some (set_player pr f m2, os, ct, col)
           \<and> (\<forall>p. bombs_left (f p) = bombs_left p \<and> number (f p) = number p
                    \<and> putting_bomb (f p) = putting_bomb p
                    \<and> putting_multibomb (f p) = putting_multibomb p
                    \<and> throwing (f p) = throwing p)"
proof -
  define g where "g = (\<lambda>p::Player.
     if get_tile_position (player_of m2 pr) \<noteq> position_to_tile pp
     then p\<lparr>wait_for_tile_transition := False\<rparr> else p)"
  define m3 where "m3 = set_player pr g m2"
  have m3: "m3 = (if get_tile_position (player_of m2 pr) \<noteq> position_to_tile pp
                then set_player pr (\<lambda>p. p\<lparr>wait_for_tile_transition := False\<rparr>) m2
                else m2)"
    by (simp add: m3_def g_def set_player_id)
  have "tiles m3 = tiles m2" by (simp add: m3_def set_player_fields)
  from grid_wf_tiles_cong [OF this] wf have wf3: "grid_wf m3" by simp
  from resolve_collisions_total [OF wf3, of pr d pp]
  obtain m' c h where rc: "resolve_collisions pr d pp m3 = Some (m', c)"
    and m': "m' = set_player pr h m3" and h: "\<And>p. \<exists>pos. h p = p\<lparr>position := pos\<rparr>"
    by blast
  have hf: "bombs_left (h p) = bombs_left p \<and> number (h p) = number p
            \<and> putting_bomb (h p) = putting_bomb p
            \<and> putting_multibomb (h p) = putting_multibomb p \<and> throwing (h p) = throwing p"
    for p using h [of p] by auto
  have gf: "bombs_left (g p) = bombs_left p \<and> number (g p) = number p
            \<and> putting_bomb (g p) = putting_bomb p
            \<and> putting_multibomb (g p) = putting_multibomb p \<and> throwing (g p) = throwing p"
    for p by (simp add: g_def)
  show ?thesis
  proof (cases "tile_has_bomb m3 (get_tile_position (player_of m2 pr))
                \<and> \<not> get_tile_position (player_of m2 pr) \<noteq> position_to_tile pp")
    case True
    then have "react_collide pr d pp os m2
                 = Some (m3, os, get_tile_position (player_of m2 pr), False)"
      unfolding react_collide_def Let_def m3 [symmetric] by auto
    with gf show ?thesis unfolding m3_def by blast
  next
    case False
    then have "react_collide pr d pp os m2
                 = Some (m', os, get_tile_position (player_of m2 pr), c)"
      unfolding react_collide_def Let_def m3 [symmetric]
      by (auto simp: rc)
    then have "react_collide pr d pp os m2
                 = Some (set_player pr (\<lambda>p. h (g p)) m2, os,
                         get_tile_position (player_of m2 pr), c)"
      by (simp only: m' m3_def set_player_comp)
    moreover have "bombs_left (h (g p)) = bombs_left p \<and> number (h (g p)) = number p
            \<and> putting_bomb (h (g p)) = putting_bomb p
            \<and> putting_multibomb (h (g p)) = putting_multibomb p
            \<and> throwing (h (g p)) = throwing p" for p
      using hf [of "g p"] gf [of p] by simp
    ultimately show ?thesis by blast
  qed
qed

lemma manage_kick_box_players: "players (manage_kick_box pr c m) = players m"
  by (simp add: manage_kick_box_def Let_def add_sound_event_def set_bomb_def
      split: option.splits)

lemma keeps_bombs_set_player_all:
  assumes "\<And>p. bombs_left (f p) = bombs_left p" "\<And>p. number (f p) = number p"
  shows "keeps_bombs pr m (set_player pr f m)"
  by (rule keeps_bombs_set_player) (simp_all add: assms)

text \<open>The rest of \<^verbatim>\<open>react_to_inputs\<close> when no bomb is to be put, and the player either has
  no bomb left or does not put a multibomb.\<close>

lemma react_place_keeps:
  assumes pr: "pr < length (players mA)" and np: "\<not> putting_bomb (player_of mA pr)"
    and ml: "bombs_left (player_of mA pr) < 1 \<or> \<not> putting_multibomb (player_of mA pr)"
  shows "\<exists>m'. react_place pr dt (mA, os, ct, col) = Some m' \<and> keeps_bombs pr mA m'"
proof -
  define m5 where "m5 = manage_kick_box pr col mA"
  have k5: "keeps_bombs pr mA m5" unfolding m5_def by (rule keeps_bombs_kick_box)
  have p5: "player_of m5 pr = player_of mA pr"
    by (simp add: m5_def player_of_def manage_kick_box_players)
  define branch where "branch =
            (if throwing (player_of m5 pr)
             then
               (let bomb_thrown = bomb_on_tile m5 ct;
                    m6 = add_sound_event SOUND_EVENT_THROW m5
                in case bomb_thrown of
                     None \<Rightarrow> Some m6
                   | Some b \<Rightarrow>
                       Some (set_player pr
                               (\<lambda>p. p\<lparr>wait_for_bomb_release := True, throwing_time_left := 200\<rparr>)
                               (set_bomb b
                                  (send_flying
                                     (Position_add (get_forward_tile_position (player_of m6 pr))
                                        (Position_mul_num
                                           (get_direction_vector (player_of m6 pr)) 3)))
                                  m6)))
             else if putting_multibomb (player_of m5 pr)
             then multibomb_loop pr (get_tile_position (player_of m5 pr))
                    (get_direction_vector (player_of m5 pr)) 1 m5
             else Some m5)"
  have "\<exists>m7. branch = Some m7 \<and> keeps_bombs pr m5 m7"
  proof (cases "throwing (player_of m5 pr)")
    case True
    have a: "keeps_bombs pr m5 (add_sound_event SOUND_EVENT_THROW m5)"
      by (rule keeps_bombs_sound)
    have b: "keeps_bombs pr m5
               (set_player pr f (set_bomb b g (add_sound_event SOUND_EVENT_THROW m5)))"
      if "\<And>p. bombs_left (f p) = bombs_left p" "\<And>p. number (f p) = number p" for f b g
      by (rule keeps_bombs_trans [OF a keeps_bombs_trans [OF keeps_bombs_set_bomb
              keeps_bombs_set_player_all]]) (simp_all add: that)
    show ?thesis
      using True a b by (simp add: branch_def Let_def split: option.splits)
  next
    case False
    show ?thesis
    proof (cases "putting_multibomb (player_of m5 pr)")
      case True
      with ml p5 have "\<not> bombs_left (player_of m5 pr) > 0" by auto
      then have "multibomb_loop pr cur inc j m5 = Some m5" for cur inc j
        by (subst multibomb_loop.simps) simp
      then show ?thesis using False True by (simp add: branch_def keeps_bombs_refl)
    next
      case nm: False
      then show ?thesis using False by (simp add: branch_def keeps_bombs_refl)
    qed
  qed
  then obtain m7 where m7: "branch = Some m7" and k7: "keeps_bombs pr m5 m7" by blast
  define f8 where "f8 = (\<lambda>p::Player. let t = max 0 (disease_time_left p - dt)
                                     in if t = 0
                                        then p\<lparr>disease_time_left := t,
                                               player_disease := DISEASE_NONE,
                                               info_board_update_needed := True\<rparr>
                                        else p\<lparr>disease_time_left := t\<rparr>)"
  define m8 where "m8 = (if player_disease (player_of m7 pr) \<noteq> DISEASE_NONE
                         then set_player pr f8 m7 else m7)"
  define m9 where "m9 = set_player pr
                          (\<lambda>p. p\<lparr>state_time := (if os = state p then state_time p + dt
                                                  else 0)\<rparr>) m8"
  have k8: "keeps_bombs pr m7 m8"
    unfolding m8_def
    by (auto simp: keeps_bombs_refl f8_def Let_def intro!: keeps_bombs_set_player_all)
  have k9: "keeps_bombs pr m8 m9"
    unfolding m9_def by (rule keeps_bombs_set_player_all) simp_all
  have "react_place pr dt (mA, os, ct, col)
          = (case branch of
               None \<Rightarrow> None
             | Some m7 \<Rightarrow>
                 Some (set_player pr
                         (\<lambda>p. p\<lparr>state_time := (if os = state p then state_time p + dt
                                                 else 0)\<rparr>)
                         (if player_disease (player_of m7 pr) \<noteq> DISEASE_NONE
                          then set_player pr f8 m7 else m7)))"
    unfolding react_place_def prod.case branch_def m5_def f8_def Let_def
    using np by (simp only: simp_thms if_False option.case)
  then have "react_place pr dt (mA, os, ct, col) = Some m9"
    by (simp only: m7 option.case m8_def m9_def)
  with k5 k7 k8 k9 show ?thesis by (blast intro: keeps_bombs_trans)
qed

end
